theory Spec2Isabelle
  imports Complex_Main "HOL-Library.Multiset"
begin

section \<open>Values of the JavaScript runtime\<close>

text \<open>
  A parsed JSON value, as \<open>express.json()\<close> hands it to a handler in \<open>req.body\<close>. A
  number is the real value of the double the parser produced. A field that is absent
  from an object is \<open>None\<close> where a field is read: JavaScript's \<open>undefined\<close>.
\<close>

datatype json =
    JNull
  | JBool bool
  | JNum real
  | JStr string
  | JArr "json list"
  | JObj "(string \<times> json) list"

text \<open>The truthiness of a value: what \<open>if (v)\<close>, \<open>!v\<close> and \<open>find((r) => r.v)\<close> test.\<close>

fun truthyJson :: "json \<Rightarrow> bool" where
  "truthyJson JNull = False"
| "truthyJson (JBool b) = b"
| "truthyJson (JNum x) = (x \<noteq> 0)"
| "truthyJson (JStr s) = (s \<noteq> [])"
| "truthyJson (JArr xs) = True"
| "truthyJson (JObj kvs) = True"

text \<open>
  \<open>a === b\<close> for a value \<open>a\<close> read from the request body (\<open>None\<close> when absent) and a
  stored value \<open>b\<close>: primitives are compared by value; an array or object of the body
  is a fresh object and identical to nothing that is stored.
\<close>

fun strictEq :: "json option \<Rightarrow> json \<Rightarrow> bool" where
  "strictEq None b = False"
| "strictEq (Some JNull) b = (b = JNull)"
| "strictEq (Some (JBool x)) b = (b = JBool x)"
| "strictEq (Some (JNum x)) b = (b = JNum x)"
| "strictEq (Some (JStr x)) b = (b = JStr x)"
| "strictEq (Some (JArr xs)) b = False"
| "strictEq (Some (JObj kvs)) b = False"

text \<open>
  A JavaScript number: a finite double with its real value, \<open>NaN\<close>, or an infinity.
\<close>

datatype jsnum = NaN | Num real | PosInf | NegInf

text \<open>
  The built-in functions of the runtime that api.ts calls and that are not part of the
  repository are parameters of the model:
  \<^item> \<open>toLowerCase\<close> is \<open>String.prototype.toLowerCase\<close>;
  \<^item> \<open>localeCompare\<close> is \<open>String.prototype.localeCompare\<close>: negative, zero or positive;
  \<^item> \<open>toNumber\<close> is the conversion of a string to a number that unary \<open>+\<close> applies;
  \<^item> \<open>fl\<close> rounds the exact result of an arithmetic operation to the double the
    operation returns (an infinity beyond the range of the doubles);
  \<^item> \<open>numberToString\<close> is \<open>Number.prototype.toString\<close>.
\<close>

record runtime =
  toLowerCase :: "string \<Rightarrow> string"
  localeCompare :: "string \<Rightarrow> string \<Rightarrow> int"
  toNumber :: "string \<Rightarrow> jsnum"
  fl :: "real \<Rightarrow> jsnum"
  numberToString :: "real \<Rightarrow> string"

text \<open>
  The arithmetic and the comparisons that \<open>getPagedData\<close> applies to the page number:
  \<open>page + 1\<close>, \<open>page - 1\<close>, a product with the page size, \<open>page < pages\<close> and \<open>page > 1\<close>.
\<close>

definition jsPlus1 :: "runtime \<Rightarrow> jsnum \<Rightarrow> jsnum" where
  "jsPlus1 rt a = (case a of Num x \<Rightarrow> fl rt (x + 1) | NaN \<Rightarrow> NaN | PosInf \<Rightarrow> PosInf | NegInf \<Rightarrow> NegInf)"

definition jsMinus1 :: "runtime \<Rightarrow> jsnum \<Rightarrow> jsnum" where
  "jsMinus1 rt a = (case a of Num x \<Rightarrow> fl rt (x - 1) | NaN \<Rightarrow> NaN | PosInf \<Rightarrow> PosInf | NegInf \<Rightarrow> NegInf)"

definition jsTimes :: "runtime \<Rightarrow> jsnum \<Rightarrow> nat \<Rightarrow> jsnum" where
  "jsTimes rt a n =
     (case a of
        Num x \<Rightarrow> fl rt (x * real n)
      | NaN \<Rightarrow> NaN
      | PosInf \<Rightarrow> if n = 0 then NaN else PosInf
      | NegInf \<Rightarrow> if n = 0 then NaN else NegInf)"

definition jsLess :: "jsnum \<Rightarrow> int \<Rightarrow> bool" where
  "jsLess a k = (case a of Num x \<Rightarrow> x < real_of_int k | NaN \<Rightarrow> False | PosInf \<Rightarrow> False | NegInf \<Rightarrow> True)"

definition jsGreater :: "jsnum \<Rightarrow> int \<Rightarrow> bool" where
  "jsGreater a k = (case a of Num x \<Rightarrow> real_of_int k < x | NaN \<Rightarrow> False | PosInf \<Rightarrow> True | NegInf \<Rightarrow> False)"

section \<open>Data model (models/role.ts, models/paged-data.ts, the User objects of api.ts)\<close>

text \<open>
  Both entities carry \<open>id\<close>, \<open>createdAt\<close> and \<open>updatedAt\<close>; the generic helpers of
  api.ts (\<open>sortBy\<close>, \<open>getEntity\<close>, \<open>getPagedData\<close>) only touch these, so they are the
  common part of an extensible record. The field \<open>id\<close> is called \<open>eid\<close> here, and
  \<open>first\<close>/\<open>last\<close> are called \<open>ufirst\<close>/\<open>ulast\<close>, because \<open>id\<close> and \<open>last\<close> are
  constants of HOL. An optional field (\<open>description?\<close>, \<open>photo?\<close>) is an option:
  \<open>None\<close> is \<open>undefined\<close>. The interface \<open>Role\<close> declares \<open>isDefault\<close> a boolean, but
  \<open>POST /roles\<close> stores whatever value the body carries, so the stored field is a JSON
  value.
\<close>

record entity =
  eid :: string
  createdAt :: string
  updatedAt :: string

record user = entity +
  ufirst :: string
  ulast :: string
  roleId :: string
  photo :: "string option"

record role = entity +
  name :: string
  description :: "string option"
  isDefault :: json

record 'a PagedData =
  data :: "'a list"
  "next" :: "jsnum option"
  prev :: "jsnum option"
  pages :: int

record store =
  users :: "user list"
  roles :: "role list"

text \<open>A thrown \<open>TypeError\<close> is the only exception of api.ts.\<close>

datatype error = TypeError

section \<open>Strings\<close>

text \<open>
  \<open>includesStr\<close> is the substring test of \<open>String.prototype.includes\<close>; a string read
  from a body is truthy when it is present and not empty.
\<close>

fun startsWith :: "string \<Rightarrow> string \<Rightarrow> bool" where
  "startsWith s [] = True"
| "startsWith [] (c # t) = False"
| "startsWith (d # s) (c # t) = (d = c \<and> startsWith s t)"

fun includesStr :: "string \<Rightarrow> string \<Rightarrow> bool" where
  "includesStr [] t = (t = [])"
| "includesStr (d # s) t = (startsWith (d # s) t \<or> includesStr s t)"

fun truthy :: "string option \<Rightarrow> bool" where
  "truthy None = False"
| "truthy (Some s) = (s \<noteq> [])"

fun joinWith :: "string \<Rightarrow> string list \<Rightarrow> string" where
  "joinWith sep [] = []"
| "joinWith sep [x] = x"
| "joinWith sep (x # y # ys) = x @ sep @ joinWith sep (y # ys)"

text \<open>
  \<open>v.toString()\<close> for a JSON value: \<open>None\<close> when the call throws (\<open>null\<close> has no
  method). An array joins the strings of its elements with commas, \<open>null\<close> elements
  giving the empty string.
\<close>

fun jsonToString :: "runtime \<Rightarrow> json \<Rightarrow> string option" where
  "jsonToString rt JNull = None"
| "jsonToString rt (JBool b) = Some (if b then ''true'' else ''false'')"
| "jsonToString rt (JNum x) = Some (numberToString rt x)"
| "jsonToString rt (JStr s) = Some s"
| "jsonToString rt (JArr xs) =
     Some (joinWith '','' (map (\<lambda>x. case jsonToString rt x of None \<Rightarrow> [] | Some s \<Rightarrow> s) xs))"
| "jsonToString rt (JObj kvs) = Some ''[object Object]''"

section \<open>Query parameters\<close>

text \<open>
  A parameter of \<open>req.query\<close> as the query parser leaves it: a string, an array (a
  repeated parameter, \<open>?search=a&search=b\<close>) or an object (\<open>?search[k]=v\<close>). An absent
  parameter is \<open>None\<close> in the record \<open>query\<close>.
\<close>

datatype qparam =
    QStr string
  | QArr "qparam list"
  | QObj "(string \<times> qparam) list"

fun truthyQ :: "qparam option \<Rightarrow> bool" where
  "truthyQ None = False"
| "truthyQ (Some (QStr s)) = (s \<noteq> [])"
| "truthyQ (Some (QArr xs)) = True"
| "truthyQ (Some (QObj kvs)) = True"

text \<open>The string of a parameter, from which unary \<open>+\<close> reads its number.\<close>

fun qparamToString :: "qparam \<Rightarrow> string" where
  "qparamToString (QStr s) = s"
| "qparamToString (QArr xs) = joinWith '','' (map qparamToString xs)"
| "qparamToString (QObj kvs) = ''[object Object]''"

record query =
  search :: "qparam option"
  page :: "qparam option"

text \<open>
  \<open>+(req.query.page || 1) || 1\<close>: a falsy parameter gives 1, and so does a parameter
  whose number is \<open>NaN\<close> or 0.
\<close>

definition pageOf :: "runtime \<Rightarrow> query \<Rightarrow> jsnum" where
  "pageOf rt q =
     (let v = (if truthyQ (page q)
               then (case page q of Some p \<Rightarrow> toNumber rt (qparamToString p) | None \<Rightarrow> Num 1)
               else Num 1)
      in if v = NaN \<or> v = Num 0 then Num 1 else v)"

section \<open>Query engine\<close>

text \<open>
  \<open>item[field].toString()\<close> for the two entity types: the string a field reads as, or
  \<open>None\<close> when the call throws (the field is \<open>undefined\<close>: an absent optional field or a
  name the object does not have; or the field holds \<open>null\<close>).
\<close>

definition userField :: "user \<Rightarrow> string \<Rightarrow> string option" where
  "userField u f =
     (if f = ''id'' then Some (eid u)
      else if f = ''createdAt'' then Some (createdAt u)
      else if f = ''updatedAt'' then Some (updatedAt u)
      else if f = ''first'' then Some (ufirst u)
      else if f = ''last'' then Some (ulast u)
      else if f = ''roleId'' then Some (roleId u)
      else if f = ''photo'' then photo u
      else None)"

definition roleField :: "runtime \<Rightarrow> role \<Rightarrow> string \<Rightarrow> string option" where
  "roleField rt r f =
     (if f = ''id'' then Some (eid r)
      else if f = ''createdAt'' then Some (createdAt r)
      else if f = ''updatedAt'' then Some (updatedAt r)
      else if f = ''name'' then Some (name r)
      else if f = ''description'' then description r
      else if f = ''isDefault'' then jsonToString rt (isDefault r)
      else None)"

definition searchFields_users :: "string list" where
  "searchFields_users = [''first'', ''last'']"

definition searchFields_roles :: "string list" where
  "searchFields_roles = [''name'', ''description'']"

text \<open>
  The callback of \<open>data.filter\<close> in \<open>fullTextSearch\<close>: the \<open>for\<close> loop over the fields,
  returning \<open>true\<close> at the first field that contains the term and \<open>undefined\<close> (falsy)
  when the loop ends; a field that is \<open>undefined\<close> throws when the loop reaches it.
  \<open>needle\<close> is the lowercased search term.
\<close>

fun matchesAny :: "runtime \<Rightarrow> ('a \<Rightarrow> string \<Rightarrow> string option) \<Rightarrow> 'a \<Rightarrow> string list \<Rightarrow> string \<Rightarrow> error + bool" where
  "matchesAny rt fld item [] needle = Inr False"
| "matchesAny rt fld item (f # fs) needle =
     (case fld item f of
        None \<Rightarrow> Inl TypeError
      | Some v \<Rightarrow> if includesStr (toLowerCase rt v) needle then Inr True
                  else matchesAny rt fld item fs needle)"

fun filterItems :: "runtime \<Rightarrow> ('a \<Rightarrow> string \<Rightarrow> string option) \<Rightarrow> 'a list \<Rightarrow> string list \<Rightarrow> string \<Rightarrow> error + 'a list" where
  "filterItems rt fld [] fs needle = Inr []"
| "filterItems rt fld (x # xs) fs needle =
     (case matchesAny rt fld x fs needle of
        Inl e \<Rightarrow> Inl e
      | Inr b \<Rightarrow>
          (case filterItems rt fld xs fs needle of
             Inl e \<Rightarrow> Inl e
           | Inr ys \<Rightarrow> Inr (if b then x # ys else ys)))"

text \<open>
  \<open>fullTextSearch\<close>. Its first statement is \<open>search.toLowerCase()\<close>, which throws when the
  parameter is an array or an object: these have no such method.
\<close>

definition fullTextSearch :: "runtime \<Rightarrow> ('a \<Rightarrow> string \<Rightarrow> string option) \<Rightarrow> 'a list \<Rightarrow> string list \<Rightarrow> qparam \<Rightarrow> error + 'a list" where
  "fullTextSearch rt fld xs flds srch =
     (case srch of
        QStr t \<Rightarrow> filterItems rt fld xs flds (toLowerCase rt t)
      | QArr ys \<Rightarrow> Inl TypeError
      | QObj kvs \<Rightarrow> Inl TypeError)"

text \<open>\<open>sortBy\<close>: newest first.\<close>

definition sortBy :: "runtime \<Rightarrow> 'a entity_scheme \<Rightarrow> 'a entity_scheme \<Rightarrow> int" where
  "sortBy rt a b = localeCompare rt (createdAt b) (createdAt a)"

text \<open>
  \<open>Array.prototype.sort\<close> with a comparator is a stable sort: an element goes in front
  of the first element it does not have to follow.
\<close>

fun insertSorted :: "('a \<Rightarrow> 'a \<Rightarrow> int) \<Rightarrow> 'a \<Rightarrow> 'a list \<Rightarrow> 'a list" where
  "insertSorted cmp x [] = [x]"
| "insertSorted cmp x (y # ys) =
     (if cmp x y \<le> 0 then x # y # ys else y # insertSorted cmp x ys)"

fun sortWith :: "('a \<Rightarrow> 'a \<Rightarrow> int) \<Rightarrow> 'a list \<Rightarrow> 'a list" where
  "sortWith cmp [] = []"
| "sortWith cmp (x # xs) = insertSorted cmp x (sortWith cmp xs)"

text \<open>
  \<open>Array.prototype.slice(start, end)\<close>. Each argument is first made an integer or an
  infinity (\<open>NaN\<close> is 0, a fraction is cut towards 0); a negative index counts from the
  end of the array, and both indices are clamped to the array.
\<close>

definition sliceIndex :: "nat \<Rightarrow> jsnum \<Rightarrow> int" where
  "sliceIndex len a =
     (case a of
        NaN \<Rightarrow> 0
      | NegInf \<Rightarrow> 0
      | PosInf \<Rightarrow> int len
      | Num x \<Rightarrow>
          (let i = (if x < 0 then \<lceil>x\<rceil> else \<lfloor>x\<rfloor>)
           in if i < 0 then max (int len + i) 0 else min i (int len)))"

definition slice :: "'a list \<Rightarrow> jsnum \<Rightarrow> jsnum \<Rightarrow> 'a list" where
  "slice xs start fin =
     (let k = sliceIndex (length xs) start;
          e = sliceIndex (length xs) fin
      in take (nat (e - k)) (drop (nat k) xs))"

text \<open>
  \<open>getPagedData\<close> from \<open>data.sort(sortBy)\<close> on: the page envelope of \<open>xs\<close>, and \<open>xs\<close> after
  the sort, which works in place. \<open>pageSize\<close> is \<open>serverConfig.pageSize\<close>, a positive
  integer; the quotient under \<open>Math.ceil\<close> is taken exactly.
\<close>

definition paginate :: "runtime \<Rightarrow> nat \<Rightarrow> query \<Rightarrow> 'a entity_scheme list \<Rightarrow> 'a entity_scheme PagedData \<times> 'a entity_scheme list" where
  "paginate rt pageSize req xs =
     (let sorted = sortWith (sortBy rt) xs;
          p = pageOf rt req;
          n = \<lceil>real (length sorted) / real pageSize\<rceil>
      in (\<lparr> data = slice sorted (jsTimes rt (jsMinus1 rt p) pageSize) (jsTimes rt p pageSize),
            next = (if jsLess p n then Some (jsPlus1 rt p) else None),
            prev = (if jsGreater p 1 then Some (jsMinus1 rt p) else None),
            pages = n \<rparr>,
          sorted))"

text \<open>
  \<open>getPagedData\<close>. The second component of the result is the caller's array after the
  call: with a truthy search parameter, \<open>data\<close> is rebound to the new array that
  \<open>filter\<close> returns and \<open>data.sort\<close> sorts that one; without, \<open>data.sort\<close> sorts the
  caller's array.
\<close>

definition getPagedData ::
  "runtime \<Rightarrow> nat \<Rightarrow> ('a entity_scheme \<Rightarrow> string \<Rightarrow> string option) \<Rightarrow> query \<Rightarrow> 'a entity_scheme list \<Rightarrow> string list
     \<Rightarrow> error + ('a entity_scheme PagedData \<times> 'a entity_scheme list)" where
  "getPagedData rt pageSize fld req xs flds =
     (if truthyQ (search req)
      then (case search req of
              None \<Rightarrow> Inr (paginate rt pageSize req xs)
            | Some srch \<Rightarrow>
                (case fullTextSearch rt fld xs flds srch of
                   Inl e \<Rightarrow> Inl e
                 | Inr found \<Rightarrow> Inr (fst (paginate rt pageSize req found), xs)))
      else Inr (paginate rt pageSize req xs))"

section \<open>Requests, responses and the environment\<close>

text \<open>
  The JSON bodies of the mutating routes. A field that is absent from the body is
  \<open>None\<close>. The name fields and \<open>roleId\<close> are strings, as the entity models type them;
  \<open>isDefault\<close> is any JSON value: the role handlers branch on its strict equality with
  \<open>true\<close> and \<open>false\<close> and store it as it comes.
\<close>

record userBody =
  b_first :: "string option"
  b_last :: "string option"
  b_roleId :: "string option"

record roleBody =
  b_name :: "string option"
  b_description :: "string option"
  b_isDefault :: "json option"

datatype request =
    GetUsers query
  | GetUser string
  | PatchUser string userBody
  | PostUser userBody
  | DeleteUser string
  | GetRoles query
  | GetRole string
  | PatchRole string roleBody
  | PostRole roleBody
  | DeleteRole string

text \<open>
  A response is a status and the value handed to \<open>res.json\<close>. \<open>Uncaught\<close> is what
  Express answers when a handler throws: its default error handler, status 500.
\<close>

datatype body =
    Message string
  | UserBody user
  | RoleBody role
  | UsersPage "user PagedData"
  | RolesPage "role PagedData"
  | Uncaught error

type_synonym response = "nat \<times> body"

text \<open>
  What a request reads from outside the store: \<open>randomUUID()\<close>,
  \<open>new Date().toISOString()\<close>, and the three draws of \<open>Math.random()\<close> (latency,
  fault, photo), each in \<open>[0, 1)\<close>.
\<close>

record env =
  uuid :: string
  now :: string
  rndLatency :: real
  rndError :: real
  rndPhoto :: real

datatype speed = Slow | Fast | Instant

record serverConfig =
  speed :: speed
  chanceOfServerError :: real
  pageSize :: nat

section \<open>Helpers of the route handlers\<close>

text \<open>
  \<open>Array.prototype.find\<close> returns a reference to the first matching object, which the
  handlers then mutate in place: the reference is the object's index in the array.
\<close>

fun findIndex :: "('a \<Rightarrow> bool) \<Rightarrow> 'a list \<Rightarrow> nat option" where
  "findIndex P [] = None"
| "findIndex P (x # xs) =
     (if P x then Some 0 else (case findIndex P xs of None \<Rightarrow> None | Some i \<Rightarrow> Some (Suc i)))"

definition getEntity :: "string \<Rightarrow> 'a entity_scheme list \<Rightarrow> nat option" where
  "getEntity ident xs = findIndex (\<lambda>item. eid item = ident) xs"

text \<open>
  \<open>updateField(item, field, value)\<close>, with the field given by its getter (\<open>item[field]\<close>,
  \<open>None\<close> when undefined) and its setter: the flag returned and the item afterwards.
\<close>

definition updateField ::
  "('a \<Rightarrow> string option) \<Rightarrow> (string \<Rightarrow> 'a \<Rightarrow> 'a) \<Rightarrow> 'a \<Rightarrow> string option \<Rightarrow> bool \<times> 'a" where
  "updateField getf setf item v =
     (case v of
        None \<Rightarrow> (False, item)
      | Some w \<Rightarrow> if w \<noteq> [] \<and> Some w \<noteq> getf item then (True, setf w item) else (False, item))"

text \<open>
  \<open>getDefaultRole\<close> finds the first role whose \<open>isDefault\<close> is truthy;
  \<open>clearDefaultRole\<close> throws when there is none.
\<close>

definition getDefaultRole :: "role list \<Rightarrow> nat option" where
  "getDefaultRole rs = findIndex (\<lambda>r. truthyJson (isDefault r)) rs"

definition clearDefaultRole :: "role list \<Rightarrow> error + role list" where
  "clearDefaultRole rs =
     (case getDefaultRole rs of
        None \<Rightarrow> Inl TypeError
      | Some j \<Rightarrow> Inr (rs[j := (rs ! j)\<lparr>isDefault := JBool False\<rparr>]))"

definition resetData :: "store \<Rightarrow> store" where
  "resetData rawData =
     \<lparr> users = map (\<lambda>u. u) (users rawData), roles = map (\<lambda>r. r) (roles rawData) \<rparr>"

definition digitChar :: "nat \<Rightarrow> char" where
  "digitChar d = char_of (48 + d)"

fun showNat :: "nat \<Rightarrow> string" where
  "showNat n = (if n < 10 then [digitChar n] else showNat (n div 10) @ [digitChar (n mod 10)])"

declare showNat.simps [simp del]

section \<open>User routes\<close>

definition getUsers :: "runtime \<Rightarrow> serverConfig \<Rightarrow> query \<Rightarrow> store \<Rightarrow> response \<times> store" where
  "getUsers rt cfg q s =
     (case getPagedData rt (pageSize cfg) userField q (users s) searchFields_users of
        Inl e \<Rightarrow> ((500, Uncaught e), s)
      | Inr (pd, us) \<Rightarrow> ((200, UsersPage pd), s\<lparr>users := us\<rparr>))"

definition getUser :: "string \<Rightarrow> store \<Rightarrow> response \<times> store" where
  "getUser ident s =
     (case getEntity ident (users s) of
        None \<Rightarrow> ((404, Message ''User not found''), s)
      | Some i \<Rightarrow> ((200, UserBody (users s ! i)), s))"

definition patchUser :: "env \<Rightarrow> string \<Rightarrow> userBody \<Rightarrow> store \<Rightarrow> response \<times> store" where
  "patchUser ev ident b s =
     (case getEntity ident (users s) of
        None \<Rightarrow> ((404, Message ''User not found''), s)
      | Some i \<Rightarrow>
          (let (u1, user1) = updateField (\<lambda>u. Some (ufirst u)) (\<lambda>v u. u\<lparr>ufirst := v\<rparr>) (users s ! i) (b_first b);
               (u2, user2) = updateField (\<lambda>u. Some (ulast u)) (\<lambda>v u. u\<lparr>ulast := v\<rparr>) user1 (b_last b);
               updated = (u2 \<or> u1)
           in if truthy (b_roleId b)
              then (case findIndex (\<lambda>r. Some (eid r) = b_roleId b) (roles s) of
                      None \<Rightarrow> ((400, Message ''Referenced role not found''), s\<lparr>users := (users s)[i := user2]\<rparr>)
                    | Some j \<Rightarrow>
                        (let user3 = user2\<lparr>roleId := (case b_roleId b of Some r \<Rightarrow> r | None \<Rightarrow> [])\<rparr>;
                             user4 = user3\<lparr>updatedAt := now ev\<rparr>
                         in ((200, UserBody user4), s\<lparr>users := (users s)[i := user4]\<rparr>)))
              else (let user4 = (if updated then user2\<lparr>updatedAt := now ev\<rparr> else user2)
                    in ((200, UserBody user4), s\<lparr>users := (users s)[i := user4]\<rparr>))))"

definition missingFields :: "userBody \<Rightarrow> string list" where
  "missingFields b =
     (if \<not> truthy (b_first b) then [''first''] else []) @
     (if \<not> truthy (b_last b) then [''last''] else []) @
     (if \<not> truthy (b_roleId b) then [''roleId''] else [])"

definition postUser :: "env \<Rightarrow> userBody \<Rightarrow> store \<Rightarrow> response \<times> store" where
  "postUser ev b s =
     (if missingFields b \<noteq> []
      then ((400, Message (''Missing required field'' @ (if length (missingFields b) > 1 then ''s'' else [])
                            @ '': '' @ joinWith '', '' (missingFields b))), s)
      else (case findIndex (\<lambda>r. Some (eid r) = b_roleId b) (roles s) of
              None \<Rightarrow> ((400, Message ''Referenced role not found''), s)
            | Some j \<Rightarrow>
                (let u = \<lparr> eid = uuid ev, createdAt = now ev, updatedAt = now ev,
                           ufirst = (case b_first b of Some v \<Rightarrow> v | None \<Rightarrow> []),
                           ulast = (case b_last b of Some v \<Rightarrow> v | None \<Rightarrow> []),
                           roleId = (case b_roleId b of Some v \<Rightarrow> v | None \<Rightarrow> []),
                           photo = Some (''https://i.pravatar.cc/400?img=''
                                         @ showNat (nat \<lfloor>rndPhoto ev * 70\<rfloor>) @ ''}'') \<rparr>
                 in ((200, UserBody u), s\<lparr>users := users s @ [u]\<rparr>))))"

definition deleteUser :: "string \<Rightarrow> store \<Rightarrow> response \<times> store" where
  "deleteUser ident s =
     (case getEntity ident (users s) of
        None \<Rightarrow> ((404, Message ''User not found''), s)
      | Some i \<Rightarrow>
          (let u = users s ! i
           in ((200, UserBody u), s\<lparr>users := filter (\<lambda>item. eid item \<noteq> eid u) (users s)\<rparr>)))"

section \<open>Role routes\<close>

definition getRoles :: "runtime \<Rightarrow> serverConfig \<Rightarrow> query \<Rightarrow> store \<Rightarrow> response \<times> store" where
  "getRoles rt cfg q s =
     (case getPagedData rt (pageSize cfg) (roleField rt) q (roles s) searchFields_roles of
        Inl e \<Rightarrow> ((500, Uncaught e), s)
      | Inr (pd, rs) \<Rightarrow> ((200, RolesPage pd), s\<lparr>roles := rs\<rparr>))"

definition getRole :: "string \<Rightarrow> store \<Rightarrow> response \<times> store" where
  "getRole ident s =
     (case getEntity ident (roles s) of
        None \<Rightarrow> ((404, Message ''Role not found''), s)
      | Some i \<Rightarrow> ((200, RoleBody (roles s ! i)), s))"

text \<open>
  \<open>PATCH /roles/:id\<close>. The two \<open>updateField\<close> calls write into the stored role before
  the \<open>isDefault\<close> branch runs, so the store of the 400 and of the throwing branch
  already holds them.
\<close>

definition patchRole :: "env \<Rightarrow> string \<Rightarrow> roleBody \<Rightarrow> store \<Rightarrow> response \<times> store" where
  "patchRole ev ident b s =
     (case getEntity ident (roles s) of
        None \<Rightarrow> ((404, Message ''Role not found''), s)
      | Some i \<Rightarrow>
          (if findIndex (\<lambda>r. Some (name r) = b_name b \<and> eid r \<noteq> eid (roles s ! i)) (roles s) \<noteq> None
           then ((400, Message ''Role with given name already exists''), s)
           else
             (let (u1, role1) = updateField (\<lambda>r. Some (name r)) (\<lambda>v r. r\<lparr>name := v\<rparr>) (roles s ! i) (b_name b);
                  (u2, role2) = updateField description (\<lambda>v r. r\<lparr>description := Some v\<rparr>) role1 (b_description b);
                  updated = (u2 \<or> u1);
                  rs1 = (roles s)[i := role2]
              in if \<not> strictEq (b_isDefault b) (isDefault role2) \<and> b_isDefault b = Some (JBool False)
                 then ((400, Message ''Cannot unset default role''), s\<lparr>roles := rs1\<rparr>)
                 else if \<not> strictEq (b_isDefault b) (isDefault role2) \<and> b_isDefault b = Some (JBool True)
                 then (case clearDefaultRole rs1 of
                         Inl e \<Rightarrow> ((500, Uncaught e), s\<lparr>roles := rs1\<rparr>)
                       | Inr rs2 \<Rightarrow>
                           (let role3 = (rs2 ! i)\<lparr>isDefault := JBool True, updatedAt := now ev\<rparr>
                            in ((200, RoleBody role3), s\<lparr>roles := rs2[i := role3]\<rparr>)))
                 else (let role3 = (if updated then role2\<lparr>updatedAt := now ev\<rparr> else role2)
                       in ((200, RoleBody role3), s\<lparr>roles := (roles s)[i := role3]\<rparr>)))))"

text \<open>
  \<open>POST /roles\<close>. The destructuring default \<open>isDefault = false\<close> applies to an absent
  field only; any other value is stored as it is, and the old default is cleared only
  when the value is \<open>=== true\<close>.
\<close>

definition postRole :: "env \<Rightarrow> roleBody \<Rightarrow> store \<Rightarrow> response \<times> store" where
  "postRole ev b s =
     (if \<not> truthy (b_name b)
      then ((400, Message ''Missing required field: name''), s)
      else if findIndex (\<lambda>r. Some (name r) = b_name b) (roles s) \<noteq> None
      then ((400, Message ''Role with given name already exists''), s)
      else
        (let r = \<lparr> eid = uuid ev, createdAt = now ev, updatedAt = now ev,
                   name = (case b_name b of Some v \<Rightarrow> v | None \<Rightarrow> []),
                   description = Some (case b_description b of Some v \<Rightarrow> v | None \<Rightarrow> []),
                   isDefault = (case b_isDefault b of Some v \<Rightarrow> v | None \<Rightarrow> JBool False) \<rparr>
         in if b_isDefault b = Some (JBool True)
            then (case clearDefaultRole (roles s) of
                    Inl e \<Rightarrow> ((500, Uncaught e), s)
                  | Inr rs \<Rightarrow> ((200, RoleBody r), s\<lparr>roles := rs @ [r]\<rparr>))
            else ((200, RoleBody r), s\<lparr>roles := roles s @ [r]\<rparr>)))"

text \<open>
  \<open>DELETE /roles/:id\<close>. \<open>defaultRole.id\<close> is read inside the \<open>forEach\<close> callback, so a
  missing default role throws only when some user references the deleted role, and
  then before any assignment.
\<close>

definition deleteRole :: "string \<Rightarrow> store \<Rightarrow> response \<times> store" where
  "deleteRole ident s =
     (case getEntity ident (roles s) of
        None \<Rightarrow> ((404, Message ''Role not found''), s)
      | Some i \<Rightarrow>
          (let r = roles s ! i
           in if truthyJson (isDefault r)
              then ((400, Message ''Cannot delete default role''), s)
              else
                (case getDefaultRole (roles s) of
                   None \<Rightarrow>
                     (if filter (\<lambda>u. roleId u = eid r) (users s) \<noteq> []
                      then ((500, Uncaught TypeError), s)
                      else ((200, RoleBody r), s\<lparr>roles := filter (\<lambda>item. eid item \<noteq> eid r) (roles s)\<rparr>))
                 | Some d \<Rightarrow>
                     ((200, RoleBody r),
                      \<lparr> users = map (\<lambda>u. if roleId u = eid r then u\<lparr>roleId := eid (roles s ! d)\<rparr> else u) (users s),
                        roles = filter (\<lambda>item. eid item \<noteq> eid r) (roles s) \<rparr>))))"

section \<open>Fault injection and dispatch\<close>

definition handle :: "runtime \<Rightarrow> serverConfig \<Rightarrow> env \<Rightarrow> request \<Rightarrow> store \<Rightarrow> response \<times> store" where
  "handle rt cfg ev req s =
     (case req of
        GetUsers q \<Rightarrow> getUsers rt cfg q s
      | GetUser i \<Rightarrow> getUser i s
      | PatchUser i b \<Rightarrow> patchUser ev i b s
      | PostUser b \<Rightarrow> postUser ev b s
      | DeleteUser i \<Rightarrow> deleteUser i s
      | GetRoles q \<Rightarrow> getRoles rt cfg q s
      | GetRole i \<Rightarrow> getRole i s
      | PatchRole i b \<Rightarrow> patchRole ev i b s
      | PostRole b \<Rightarrow> postRole ev b s
      | DeleteRole i \<Rightarrow> deleteRole i s)"

text \<open>
  \<open>logWithNetworkEffects\<close>: the latency in milliseconds, then either the 500 of the
  injected fault or whatever \<open>next()\<close>, the rest of the pipeline, answers. The console
  log line is left out.
\<close>

definition logWithNetworkEffects ::
  "serverConfig \<Rightarrow> env \<Rightarrow> (store \<Rightarrow> response \<times> store) \<Rightarrow> store \<Rightarrow> nat \<times> response \<times> store" where
  "logWithNetworkEffects cfg ev nxt s =
     (let latencyInMs =
            (case speed cfg of
               Slow \<Rightarrow> nat \<lfloor>rndLatency ev * 1000\<rfloor> + 1000
             | Fast \<Rightarrow> nat \<lfloor>rndLatency ev * 500\<rfloor> + 500
             | Instant \<Rightarrow> 0);
          serverError = (rndError ev < chanceOfServerError cfg)
      in if serverError then (latencyInMs, (500, Message ''Server Error''), s)
         else (latencyInMs, nxt s))"

definition serve :: "runtime \<Rightarrow> serverConfig \<Rightarrow> env \<Rightarrow> request \<Rightarrow> store \<Rightarrow> nat \<times> response \<times> store" where
  "serve rt cfg ev req s = logWithNetworkEffects cfg ev (handle rt cfg ev req) s"

section \<open>The running server\<close>

text \<open>
  The seed (\<open>rawData\<close>, the module \<open>./data\<close>) is a parameter. A store is reachable when
  it is the reset of the seed, or the store a request leaves behind, run through the
  fault injection and the handler, with \<open>randomUUID()\<close> returning an identifier that no
  stored role has.
\<close>

inductive reachable :: "runtime \<Rightarrow> serverConfig \<Rightarrow> store \<Rightarrow> store \<Rightarrow> bool"
  for rt :: runtime and cfg :: serverConfig and rawData :: store where
  start: "reachable rt cfg rawData (resetData rawData)"
| request: "reachable rt cfg rawData s \<Longrightarrow> uuid ev \<notin> eid ` set (roles s)
            \<Longrightarrow> serve rt cfg ev req s = (ms, resp, s') \<Longrightarrow> reachable rt cfg rawData s'"
| reset: "reachable rt cfg rawData s \<Longrightarrow> reachable rt cfg rawData (resetData rawData)"

text \<open>
  A role counts as default where the code tests \<open>role.isDefault\<close>: when the field is
  truthy. The invariants of the data model: role identifiers are unique and exactly one
  role is the default; every user's \<open>roleId\<close> is the identifier of a stored role.
  \<open>rolesOk\<close> is the part of the first that every reachable store keeps: unique
  identifiers and at least one default role.
\<close>

abbreviation isDefaultRole :: "role \<Rightarrow> bool" where
  "isDefaultRole r \<equiv> truthyJson (isDefault r)"

definition rolesInv :: "role list \<Rightarrow> bool" where
  "rolesInv rs = (distinct (map eid rs) \<and> length (filter isDefaultRole rs) = 1)"

definition rolesOk :: "role list \<Rightarrow> bool" where
  "rolesOk rs = (distinct (map eid rs) \<and> filter isDefaultRole rs \<noteq> [])"

definition refsInv :: "store \<Rightarrow> bool" where
  "refsInv s = (\<forall>u \<in> set (users s). roleId u \<in> eid ` set (roles s))"



text \<open>
  The page number of a request is the integer \<open>p\<close> and none of the four operations
  that \<open>getPagedData\<close> applies to it rounds.
\<close>

definition exactPage :: "runtime \<Rightarrow> nat \<Rightarrow> query \<Rightarrow> int \<Rightarrow> bool" where
  "exactPage rt n q p =
     (pageOf rt q = Num (real_of_int p) \<and>
      fl rt (real_of_int p + 1) = Num (real_of_int p + 1) \<and>
      fl rt (real_of_int p - 1) = Num (real_of_int p - 1) \<and>
      fl rt ((real_of_int p - 1) * real n) = Num ((real_of_int p - 1) * real n) \<and>
      fl rt (real_of_int p * real n) = Num (real_of_int p * real n))"

section \<open>A sample runtime and a sample store\<close>

text \<open>
  A runtime for the examples. It agrees with the JavaScript runtime on what the examples
  hand it: ASCII strings to lowercase, timestamps of one format that differ in digits
  to compare, decimal integers to read and to print, and numbers so small that no
  operation rounds.
\<close>

definition lower_char :: "char \<Rightarrow> char" where
  "lower_char c =
     (if 65 \<le> (of_char c :: nat) \<and> (of_char c :: nat) \<le> 90
      then char_of ((of_char c :: nat) + 32) else c)"

definition asciiLower :: "string \<Rightarrow> string" where
  "asciiLower s = map lower_char s"

fun codeUnitCompare :: "string \<Rightarrow> string \<Rightarrow> int" where
  "codeUnitCompare [] [] = 0"
| "codeUnitCompare [] (c # t) = - 1"
| "codeUnitCompare (d # s) [] = 1"
| "codeUnitCompare (d # s) (c # t) =
     (if (of_char d :: nat) < of_char c then - 1
      else if (of_char c :: nat) < of_char d then 1
      else codeUnitCompare s t)"

fun digitsToNat :: "string \<Rightarrow> nat \<Rightarrow> nat option" where
  "digitsToNat [] acc = Some acc"
| "digitsToNat (c # cs) acc =
     (if 48 \<le> (of_char c :: nat) \<and> (of_char c :: nat) \<le> 57
      then digitsToNat cs (10 * acc + ((of_char c :: nat) - 48)) else None)"

definition decimalToNumber :: "string \<Rightarrow> jsnum" where
  "decimalToNumber s =
     (case s of
        [] \<Rightarrow> Num 0
      | c # cs \<Rightarrow>
          if c = CHR ''-'' \<and> cs \<noteq> []
          then (case digitsToNat cs 0 of Some n \<Rightarrow> Num (- real n) | None \<Rightarrow> NaN)
          else (case digitsToNat (c # cs) 0 of Some n \<Rightarrow> Num (real n) | None \<Rightarrow> NaN))"

definition integerToString :: "real \<Rightarrow> string" where
  "integerToString x = (if x < 0 then ''-'' @ showNat (nat \<lfloor>- x\<rfloor>) else showNat (nat \<lfloor>x\<rfloor>))"

definition sampleRuntime :: runtime where
  "sampleRuntime = \<lparr> toLowerCase = asciiLower, localeCompare = codeUnitCompare,
                     toNumber = decimalToNumber, fl = Num, numberToString = integerToString \<rparr>"

definition r1 :: role where
  "r1 = \<lparr> eid = ''r1'', createdAt = ''2024-01-01'', updatedAt = ''2024-01-01'',
          name = ''support'', description = Some ''helps customers'', isDefault = JBool True \<rparr>"

definition r2 :: role where
  "r2 = \<lparr> eid = ''r2'', createdAt = ''2024-02-01'', updatedAt = ''2024-02-01'',
          name = ''engineering'', description = Some ''builds software'', isDefault = JBool False \<rparr>"

definition r3 :: role where
  "r3 = \<lparr> eid = ''r3'', createdAt = ''2024-03-01'', updatedAt = ''2024-03-01'',
          name = ''operations'', description = None, isDefault = JBool False \<rparr>"

definition u1 :: user where
  "u1 = \<lparr> eid = ''u1'', createdAt = ''2024-01-01'', updatedAt = ''2024-01-01'',
          ufirst = ''mark'', ulast = ''tipton'', roleId = ''r2'', photo = None \<rparr>"

definition u2 :: user where
  "u2 = \<lparr> eid = ''u2'', createdAt = ''2024-02-01'', updatedAt = ''2024-02-01'',
          ufirst = ''ann'', ulast = ''lee'', roleId = ''r2'', photo = None \<rparr>"

definition u3 :: user where
  "u3 = \<lparr> eid = ''u3'', createdAt = ''2024-03-01'', updatedAt = ''2024-03-01'',
          ufirst = ''bob'', ulast = ''ray'', roleId = ''r1'', photo = None \<rparr>"

definition sampleStore :: store where
  "sampleStore = \<lparr> users = [u1, u2, u3], roles = [r1, r2] \<rparr>"

definition sampleConfig :: serverConfig where
  "sampleConfig = \<lparr> speed = Instant, chanceOfServerError = 0, pageSize = 2 \<rparr>"

definition sampleEnv :: env where
  "sampleEnv = \<lparr> uuid = ''r9'', now = ''2024-06-01'', rndLatency = 1 / 2, rndError = 1 / 2,
                 rndPhoto = 1 / 2 \<rparr>"

text \<open>
  Three requests in a row on the sample store: \<open>POST /roles\<close> with \<open>isDefault: 1\<close>,
  \<open>GET /roles\<close>, and \<open>PATCH /roles/r9\<close> with \<open>isDefault: true\<close>.
\<close>

definition r9 :: role where
  "r9 = \<lparr> eid = ''r9'', createdAt = ''2024-06-01'', updatedAt = ''2024-06-01'',
          name = ''sales'', description = Some [], isDefault = JNum 1 \<rparr>"

definition laterEnv :: env where
  "laterEnv = sampleEnv\<lparr> uuid := ''r10'', now := ''2024-06-02'' \<rparr>"

definition storeAfterPost :: store where
  "storeAfterPost =
     snd (snd (serve sampleRuntime sampleConfig sampleEnv
       (PostRole \<lparr> b_name = Some ''sales'', b_description = None, b_isDefault = Some (JNum 1) \<rparr>)
       sampleStore))"

definition storeAfterGet :: store where
  "storeAfterGet =
     snd (snd (serve sampleRuntime sampleConfig laterEnv
       (GetRoles \<lparr> search = None, page = None \<rparr>) storeAfterPost))"

definition storeAfterPatch :: store where
  "storeAfterPatch =
     snd (snd (serve sampleRuntime sampleConfig laterEnv
       (PatchRole ''r9'' \<lparr> b_name = None, b_description = None, b_isDefault = Some (JBool True) \<rparr>)
       storeAfterGet))"

lemmas sample_defs =
  sampleStore_def sampleConfig_def sampleEnv_def r1_def r2_def u1_def u2_def u3_def

lemmas runtime_defs =
  sampleRuntime_def jsPlus1_def jsMinus1_def jsTimes_def jsLess_def jsGreater_def
  sliceIndex_def slice_def pageOf_def decimalToNumber_def

section \<open>Basic facts\<close>

lemma error_is_TypeError: "(e :: error) = TypeError"
  by (cases e)

lemma startsWith_iff: "startsWith s t \<longleftrightarrow> (\<exists>r. s = t @ r)"
  by (induction s t rule: startsWith.induct) auto

text \<open>\<open>includesStr s t\<close> holds exactly when \<open>t\<close> is a substring of \<open>s\<close>.\<close>

lemma includesStr_iff: "includesStr s t \<longleftrightarrow> (\<exists>p r. s = p @ t @ r)"
proof (induction s)
  case Nil
  then show ?case by simp
next
  case (Cons d s)
  show ?case
  proof
    assume "includesStr (d # s) t"
    then consider "startsWith (d # s) t" | "includesStr s t" by auto
    then show "\<exists>p r. d # s = p @ t @ r"
    proof cases
      case 1
      then obtain r where "d # s = t @ r" by (auto simp: startsWith_iff)
      then have "d # s = [] @ t @ r" by simp
      then show ?thesis by blast
    next
      case 2
      then obtain p r where "s = p @ t @ r" using Cons.IH by auto
      then have "d # s = (d # p) @ t @ r" by simp
      then show ?thesis by blast
    qed
  next
    assume "\<exists>p r. d # s = p @ t @ r"
    then obtain p r where e: "d # s = p @ t @ r" by auto
    show "includesStr (d # s) t"
    proof (cases p)
      case Nil
      with e have "startsWith (d # s) t" by (auto simp: startsWith_iff)
      then show ?thesis by simp
    next
      case (Cons a p')
      with e have "s = p' @ t @ r" by simp
      then have "includesStr s t" using Cons.IH by blast
      then show ?thesis by simp
    qed
  qed
qed

lemma findIndex_None_iff: "findIndex P xs = None \<longleftrightarrow> (\<forall>x \<in> set xs. \<not> P x)"
  by (induction xs) (auto split: option.splits)

lemma findIndex_Some:
  "findIndex P xs = Some i \<Longrightarrow> i < length xs \<and> P (xs ! i) \<and> (\<forall>j < i. \<not> P (xs ! j))"
proof (induction xs arbitrary: i)
  case Nil
  then show ?case by simp
next
  case (Cons x xs)
  show ?case
  proof (cases "P x")
    case True
    with Cons.prems show ?thesis by simp
  next
    case False
    with Cons.prems obtain k where k: "findIndex P xs = Some k" "i = Suc k"
      by (auto split: option.splits)
    from Cons.IH[OF k(1)] False k(2) show ?thesis
      by (auto simp: nth_Cons split: nat.splits)
  qed
qed

lemma mset_insertSorted: "mset (insertSorted cmp x xs) = add_mset x (mset xs)"
  by (induction xs) auto

lemma mset_sortWith: "mset (sortWith cmp xs) = mset xs"
  by (induction xs) (auto simp: mset_insertSorted)

lemma length_insertSorted: "length (insertSorted cmp x xs) = Suc (length xs)"
  by (induction xs) auto

lemma length_sortWith: "length (sortWith cmp xs) = length xs"
  by (induction xs) (auto simp: length_insertSorted)

lemma ceiling_one_divide_numeral: "\<lceil>(1::real) / numeral b\<rceil> = - (- 1 div numeral b)"
  using ceiling_divide_eq_div[of 1 "numeral b"] by simp

lemma set_sortWith: "set (sortWith cmp xs) = set xs"
  by (metis mset_sortWith set_mset_mset)

lemma sliceIndex_Nil: "sliceIndex 0 a = 0"
  by (cases a) (simp_all add: sliceIndex_def Let_def)


lemma resetData_eq: "resetData rawData = rawData"
  by (simp add: resetData_def)

section \<open>Search\<close>



lemma matchesAny_roles:
  "matchesAny rt (roleField rt) r searchFields_roles needle =
     (if includesStr (toLowerCase rt (name r)) needle then Inr True
      else (case description r of
              None \<Rightarrow> Inl TypeError
            | Some d \<Rightarrow> Inr (includesStr (toLowerCase rt d) needle)))"
  by (simp add: searchFields_roles_def roleField_def split: option.splits)


lemma filterItems_throws_iff:
  "filterItems rt fld xs fs t = Inl TypeError \<longleftrightarrow> (\<exists>x \<in> set xs. matchesAny rt fld x fs t = Inl TypeError)"
  by (induction xs) (auto simp: error_is_TypeError split: sum.splits)

lemma matchesAny_throws:
  "(\<forall>g \<in> set pre. \<exists>v. fld x g = Some v \<and> \<not> includesStr (toLowerCase rt v) needle) \<Longrightarrow>
   fld x f = None \<Longrightarrow> matchesAny rt fld x (pre @ f # post) needle = Inl TypeError"
  by (induction pre) auto

lemma matchesAny_first_match:
  "(\<forall>h \<in> set pre. fld x h \<noteq> None) \<Longrightarrow> fld x g = Some v \<Longrightarrow>
   includesStr (toLowerCase rt v) needle \<Longrightarrow> matchesAny rt fld x (pre @ g # post) needle = Inr True"
  by (induction pre) auto

lemma filterItems_kept:
  "filterItems rt fld xs fs needle = Inr ys \<Longrightarrow> x \<in> set xs \<Longrightarrow>
   matchesAny rt fld x fs needle = Inr True \<Longrightarrow> x \<in> set ys"
proof (induction xs arbitrary: ys)
  case Nil
  then show ?case by simp
next
  case (Cons a xs)
  from Cons.prems(1) obtain b zs where b: "matchesAny rt fld a fs needle = Inr b"
    and zs: "filterItems rt fld xs fs needle = Inr zs" and ys: "ys = (if b then a # zs else zs)"
    by (auto split: sum.splits)
  show ?case
  proof (cases "x = a")
    case True
    with Cons.prems(3) b ys show ?thesis by simp
  next
    case False
    with Cons.prems(2) have "x \<in> set xs" by simp
    from Cons.IH[OF zs this Cons.prems(3)] ys show ?thesis by simp
  qed
qed

section \<open>Pagination\<close>

lemma pages_paginate:
  "pages (fst (paginate rt n q xs)) = \<lceil>real (length xs) / real n\<rceil>"
  by (simp add: paginate_def Let_def length_sortWith)

lemma snd_paginate: "snd (paginate rt n q xs) = sortWith (sortBy rt) xs"
  by (simp add: paginate_def Let_def)





lemma getRoles_search_throws:
  assumes "search q = Some (QStr t)" "t \<noteq> []" "r \<in> set (roles s)" "description r = None"
    and "\<not> includesStr (toLowerCase rt (name r)) (toLowerCase rt t)"
  shows "getRoles rt cfg q s = ((500, Uncaught TypeError), s)"
proof -
  have "matchesAny rt (roleField rt) r searchFields_roles (toLowerCase rt t) = Inl TypeError"
    using assms(4,5) by (simp add: matchesAny_roles)
  then have "filterItems rt (roleField rt) (roles s) searchFields_roles (toLowerCase rt t) = Inl TypeError"
    using assms(3) filterItems_throws_iff by blast
  then show ?thesis
    using assms(1,2) by (simp add: getRoles_def getPagedData_def fullTextSearch_def)
qed



section \<open>Pagination for integer page numbers from 1 on\<close>

lemma sliceIndex_nat: "sliceIndex len (Num (real a)) = int (min a len)"
  by (simp add: sliceIndex_def Let_def min_def)

lemma slice_nat:
  "slice xs (Num (real a)) (Num (real b)) = take (min b (length xs) - min a (length xs)) (drop (min a (length xs)) xs)"
proof -
  have "nat (int (min b (length xs)) - int (min a (length xs))) = min b (length xs) - min a (length xs)"
    by (simp add: nat_diff_distrib')
  then show ?thesis by (simp add: slice_def Let_def sliceIndex_nat)
qed

lemma page_bounds:
  assumes "1 \<le> p"
  shows "(real_of_int p - 1) * real n = real (nat (p - 1) * n)"
    and "real_of_int p * real n = real (nat (p - 1) * n + n)"
proof -
  from assms have "0 \<le> p - 1" by simp
  then obtain k where k: "p - 1 = int k" by (rule nonneg_int_cases)
  then have p: "p = int k + 1" by simp
  show "(real_of_int p - 1) * real n = real (nat (p - 1) * n)" using p by simp
  show "real_of_int p * real n = real (nat (p - 1) * n + n)" using p by (simp add: algebra_simps)
qed

lemma length_slice_page:
  assumes "1 \<le> p"
  shows "length (slice xs (Num ((real_of_int p - 1) * real n)) (Num (real_of_int p * real n)))
           = min n (length xs - nat (p - 1) * n)"
  unfolding page_bounds[OF assms] slice_nat by (auto simp: min_def)

lemma full_page:
  assumes n: "0 < n" and p: "1 \<le> p" "p < \<lceil>real m / real n\<rceil>"
  shows "nat (p - 1) * n + n \<le> m"
proof -
  from p(2) have "real_of_int p < real m / real n" by (simp add: less_ceiling_iff)
  then have "real_of_int p * real n < real m" using n by (simp add: pos_less_divide_eq)
  then have "real (nat (p - 1) * n + n) < real m" unfolding page_bounds(2)[OF p(1)] .
  then show ?thesis by linarith
qed

lemma beyond_last_page:
  assumes n: "0 < n" and p: "\<lceil>real m / real n\<rceil> < p"
  shows "1 \<le> p \<and> m \<le> nat (p - 1) * n"
proof -
  have "0 \<le> real m / real n" by simp
  then have "0 \<le> \<lceil>real m / real n\<rceil>" by (simp only: zero_le_ceiling)
  with p have p1: "1 \<le> p" by linarith
  from p have "real m / real n \<le> real_of_int (p - 1)" by (simp add: ceiling_less_iff)
  then have "real m \<le> real_of_int (p - 1) * real n" using n by (simp add: pos_divide_le_eq)
  then have "real m \<le> (real_of_int p - 1) * real n" by simp
  then have "real m \<le> real (nat (p - 1) * n)" unfolding page_bounds(1)[OF p1] .
  then show ?thesis using p1 by linarith
qed

text \<open>
  The envelope of a listing for a positive page size and an integer page number
  \<open>p \<ge> 1\<close> on which the arithmetic is exact: \<open>pages\<close> is the ceiling of the count over
  the page size, \<open>next\<close> and \<open>prev\<close> follow from \<open>p\<close> and \<open>pages\<close>, the data slice is never
  longer than a page, is a full page on every page before the last, and is empty on
  every page after the last. Nothing is said here about the data slice of any other
  page number.
\<close>

lemma paginate_envelope:
  assumes n: "0 < n" and ex: "exactPage rt n q p" and p1: "1 \<le> p"
  shows "pages (fst (paginate rt n q xs)) = \<lceil>real (length xs) / real n\<rceil> \<and>
         next (fst (paginate rt n q xs))
           = (if p < pages (fst (paginate rt n q xs)) then Some (Num (real_of_int (p + 1))) else None) \<and>
         prev (fst (paginate rt n q xs)) = (if 1 < p then Some (Num (real_of_int (p - 1))) else None) \<and>
         length (data (fst (paginate rt n q xs))) \<le> n \<and>
         (p < pages (fst (paginate rt n q xs)) \<longrightarrow> length (data (fst (paginate rt n q xs))) = n) \<and>
         (pages (fst (paginate rt n q xs)) < p \<longrightarrow> data (fst (paginate rt n q xs)) = [])"
proof -
  define pd where "pd = fst (paginate rt n q xs)"
  from ex have pg: "pageOf rt q = Num (real_of_int p)"
    and e1: "fl rt (real_of_int p + 1) = Num (real_of_int p + 1)"
    and e2: "fl rt (real_of_int p - 1) = Num (real_of_int p - 1)"
    and e3: "fl rt ((real_of_int p - 1) * real n) = Num ((real_of_int p - 1) * real n)"
    and e4: "fl rt (real_of_int p * real n) = Num (real_of_int p * real n)"
    by (simp_all add: exactPage_def)
  have pgs: "pages pd = \<lceil>real (length xs) / real n\<rceil>" by (simp add: pd_def pages_paginate)
  have dat: "data pd = slice (sortWith (sortBy rt) xs) (Num ((real_of_int p - 1) * real n)) (Num (real_of_int p * real n))"
    by (simp add: pd_def paginate_def Let_def pg jsTimes_def jsMinus1_def e2 e3 e4)
  have nxt: "next pd = (if p < pages pd then Some (Num (real_of_int (p + 1))) else None)"
    by (simp add: pd_def paginate_def Let_def pg jsLess_def jsPlus1_def e1 length_sortWith)
  have prv: "prev pd = (if 1 < p then Some (Num (real_of_int (p - 1))) else None)"
    by (simp add: pd_def paginate_def Let_def pg jsGreater_def jsMinus1_def e2)
  have len: "length (data pd) = min n (length xs - nat (p - 1) * n)"
    by (simp add: dat length_slice_page[OF p1] length_sortWith)
  have le: "length (data pd) \<le> n" by (simp add: len)
  have full: "length (data pd) = n" if "p < pages pd"
    using full_page[OF n p1, of "length xs"] that by (simp add: len pgs)
  have empty: "data pd = []" if "pages pd < p"
  proof -
    from beyond_last_page[OF n, of "length xs" p] that have "length xs \<le> nat (p - 1) * n"
      by (simp add: pgs)
    then have "length (data pd) = 0" by (simp add: len)
    then show ?thesis by simp
  qed
  show ?thesis using pgs nxt prv le full empty unfolding pd_def by simp
qed

text \<open>
  A listing keeps the elements of the store, and with a search parameter also their
  order.
\<close>

lemma getPagedData_keeps_elements:
  assumes "getPagedData rt n fld q xs flds = Inr (pd, ys)"
  shows "mset ys = mset xs \<and> (truthyQ (search q) \<longrightarrow> ys = xs)"
  using assms snd_paginate[of rt n q xs]
  by (auto simp: getPagedData_def mset_sortWith split: sum.splits if_splits option.splits)

text \<open>
  Without a \<open>roleId\<close> in the body, \<open>updatedAt\<close> is refreshed exactly when \<open>first\<close> or
  \<open>last\<close> changed value.
\<close>

lemma patchUser_without_role:
  assumes found: "getEntity ident (users s) = Some i" and norole: "\<not> truthy (b_roleId b)"
  shows "\<exists>u'. patchUser ev ident b s = ((200, UserBody u'), s\<lparr>users := (users s)[i := u']\<rparr>) \<and>
              roleId u' = roleId (users s ! i) \<and>
              updatedAt u' = (if ufirst u' \<noteq> ufirst (users s ! i) \<or> ulast u' \<noteq> ulast (users s ! i)
                              then now ev else updatedAt (users s ! i))"
  using assms
  by (auto simp: patchUser_def Let_def case_prod_beta updateField_def split: option.splits)

section \<open>Listing requests and the store\<close>

text \<open>
  C8 (query purity). The claim: a listing request leaves both collections as they were,
  the order of their elements included. Without a search parameter \<open>getPagedData\<close> sorts
  the array it was handed, which is the store's own: after \<open>GET /roles\<close> on the sample
  store, whose roles are stored oldest first, the store holds them newest first. (The
  elements are kept, and with a search parameter the store is untouched:
  \<open>getPagedData_keeps_elements\<close>.)
\<close>

theorem getRoles_sorts_store:
  "roles sampleStore = [r1, r2] \<and>
   roles (snd (getRoles sampleRuntime sampleConfig \<lparr> search = None, page = None \<rparr> sampleStore)) = [r2, r1] \<and>
   [r2, r1] \<noteq> [r1, r2]"
  by (simp add: getRoles_def getPagedData_def paginate_def sortBy_def Let_def sampleRuntime_def sample_defs)

text \<open>
  C3 (pagination envelope). The claim: a page outside \<open>1..pages\<close> has an empty data
  slice. \<open>GET /users?page=-1\<close> on the sample store (three users, page size 2, so two
  pages): the page number \<open>-1\<close> passes the coercion, \<open>slice(-4, -2)\<close> counts from the end
  of the array, and the answer carries one user. (For integer page numbers from 1 on
  the envelope is the claimed one: \<open>paginate_envelope\<close>.)
\<close>

theorem getUsers_negative_page:
  "getUsers sampleRuntime sampleConfig \<lparr> search = None, page = Some (QStr ''-1'') \<rparr> sampleStore =
     ((200, UsersPage \<lparr> data = [u3], next = Some (Num 0), prev = None, pages = 2 \<rparr>),
      sampleStore\<lparr>users := [u3, u2, u1]\<rparr>)"
  by (simp add: getUsers_def getPagedData_def paginate_def sortBy_def Let_def runtime_defs sample_defs)

section \<open>User update\<close>

text \<open>
  C6 (user update timestamp). The claim: \<open>updatedAt\<close> is refreshed only when a field
  changed value, so a PATCH that repeats the user's current \<open>roleId\<close> leaves it alone.
  The handler sets \<open>updated = true\<close> whenever the supplied role exists: user \<open>u1\<close> has
  role \<open>r2\<close>, is patched with \<open>roleId = r2\<close>, and comes back with a new \<open>updatedAt\<close>.
  (Without a \<open>roleId\<close> the timestamp follows the changes of \<open>first\<close> and \<open>last\<close>:
  \<open>patchUser_without_role\<close>.)
\<close>

theorem patchUser_same_role_refreshes:
  "roleId (users sampleStore ! 0) = ''r2'' \<and>
   updatedAt (users sampleStore ! 0) = ''2024-01-01'' \<and>
   patchUser sampleEnv ''u1'' \<lparr> b_first = None, b_last = None, b_roleId = Some ''r2'' \<rparr> sampleStore =
     ((200, UserBody (u1\<lparr>updatedAt := ''2024-06-01''\<rparr>)),
      sampleStore\<lparr>users := [u1\<lparr>updatedAt := ''2024-06-01''\<rparr>, u2, u3]\<rparr>)"
  by (simp add: patchUser_def getEntity_def updateField_def Let_def sample_defs)

text \<open>
  C9 (PATCH /users/:id is not atomic). For an existing user, a body with a non-empty
  \<open>roleId\<close> that is the identifier of no stored role and a new, different, non-empty
  \<open>first\<close> or \<open>last\<close>: the answer is 400 \<open>Referenced role not found\<close>, the stored user
  already carries the supplied names, and its \<open>updatedAt\<close> is the old one.
\<close>

theorem patchUser_not_atomic:
  assumes found: "getEntity ident (users s) = Some i"
    and supplied: "b_roleId b = Some rid" "rid \<noteq> []"
    and dangling: "rid \<notin> eid ` set (roles s)"
    and changed: "(\<exists>f. b_first b = Some f \<and> f \<noteq> [] \<and> f \<noteq> ufirst (users s ! i)) \<or>
                  (\<exists>l. b_last b = Some l \<and> l \<noteq> [] \<and> l \<noteq> ulast (users s ! i))"
  shows "\<exists>s'. patchUser ev ident b s = ((400, Message ''Referenced role not found''), s') \<and>
              users s' \<noteq> users s \<and>
              roles s' = roles s \<and>
              (\<forall>f. b_first b = Some f \<and> f \<noteq> [] \<longrightarrow> ufirst (users s' ! i) = f) \<and>
              (\<forall>l. b_last b = Some l \<and> l \<noteq> [] \<longrightarrow> ulast (users s' ! i) = l) \<and>
              updatedAt (users s' ! i) = updatedAt (users s ! i)"
proof -
  have i: "i < length (users s)"
    using found findIndex_Some[of _ "users s" i] by (simp add: getEntity_def)
  have none: "findIndex (\<lambda>r. Some (eid r) = b_roleId b) (roles s) = None"
    using dangling supplied by (auto simp: findIndex_None_iff)
  define user1 where "user1 = snd (updateField (\<lambda>u. Some (ufirst u)) (\<lambda>v u. u\<lparr>ufirst := v\<rparr>) (users s ! i) (b_first b))"
  define user2 where "user2 = snd (updateField (\<lambda>u. Some (ulast u)) (\<lambda>v u. u\<lparr>ulast := v\<rparr>) user1 (b_last b))"
  have res: "patchUser ev ident b s =
      ((400, Message ''Referenced role not found''), s\<lparr>users := (users s)[i := user2]\<rparr>)"
    using found supplied none
    by (simp add: patchUser_def Let_def user1_def user2_def split: prod.splits)
  have upd: "updatedAt user2 = updatedAt (users s ! i)"
    by (simp add: user2_def user1_def updateField_def split: option.splits)
  have f: "\<forall>f. b_first b = Some f \<and> f \<noteq> [] \<longrightarrow> ufirst user2 = f"
    by (auto simp: user2_def user1_def updateField_def split: option.splits)
  have l: "\<forall>l. b_last b = Some l \<and> l \<noteq> [] \<longrightarrow> ulast user2 = l"
    by (auto simp: user2_def user1_def updateField_def split: option.splits)
  have ne: "user2 \<noteq> users s ! i"
    using changed f l by auto
  have "(users s)[i := user2] \<noteq> users s"
    using ne i by (metis nth_list_update_eq)
  with res upd f l i show ?thesis by simp
qed

theorem patchUser_not_atomic_witness:
  "patchUser sampleEnv ''u1'' \<lparr> b_first = Some ''max'', b_last = None, b_roleId = Some ''nope'' \<rparr> sampleStore
     = ((400, Message ''Referenced role not found''), sampleStore\<lparr>users := [u1\<lparr>ufirst := ''max''\<rparr>, u2, u3]\<rparr>)"
proof -
  let ?b = "\<lparr> b_first = Some ''max'', b_last = None, b_roleId = Some ''nope'' \<rparr>"
  have a: "getEntity ''u1'' (users sampleStore) = Some 0"
    by (simp add: getEntity_def sample_defs)
  have b: "b_roleId ?b = Some ''nope''" "''nope'' \<noteq> []" by simp_all
  have c: "''nope'' \<notin> eid ` set (roles sampleStore)" by (simp add: sample_defs)
  have d: "(\<exists>f. b_first ?b = Some f \<and> f \<noteq> [] \<and> f \<noteq> ufirst (users sampleStore ! 0)) \<or>
           (\<exists>l. b_last ?b = Some l \<and> l \<noteq> [] \<and> l \<noteq> ulast (users sampleStore ! 0))"
    by (simp add: sample_defs)
  from patchUser_not_atomic[OF a b c d, of sampleEnv]
  obtain s' where "patchUser sampleEnv ''u1'' ?b sampleStore = ((400, Message ''Referenced role not found''), s')"
    by blast
  moreover have "patchUser sampleEnv ''u1'' ?b sampleStore
     = ((400, Message ''Referenced role not found''), sampleStore\<lparr>users := [u1\<lparr>ufirst := ''max''\<rparr>, u2, u3]\<rparr>)"
    by (simp add: patchUser_def getEntity_def updateField_def Let_def sample_defs)
  ultimately show ?thesis by simp
qed

section \<open>Fault injection\<close>

text \<open>
  C5 (fault injection). \<open>Math.random()\<close> lies in \<open>[0, 1)\<close>. With
  \<open>chanceOfServerError = 1\<close> every request is answered 500 \<open>Server Error\<close> and the store
  is returned as it was, whatever the rest of the pipeline (\<open>next\<close>) would have done:
  the answer does not depend on it, for any request. With \<open>chanceOfServerError = 0\<close>
  the answer is always the one of the rest of the pipeline.
\<close>

theorem fault_injection:
  assumes "0 \<le> rndError ev" and "rndError ev < 1"
  shows "(chanceOfServerError cfg = 1 \<longrightarrow>
            (\<forall>nxt s. snd (logWithNetworkEffects cfg ev nxt s) = ((500, Message ''Server Error''), s)) \<and>
            (\<forall>req s. snd (serve rt cfg ev req s) = ((500, Message ''Server Error''), s))) \<and>
         (chanceOfServerError cfg = 0 \<longrightarrow>
            (\<forall>nxt s. snd (logWithNetworkEffects cfg ev nxt s) = nxt s) \<and>
            (\<forall>req s. snd (serve rt cfg ev req s) = handle rt cfg ev req s))"
  using assms by (simp add: logWithNetworkEffects_def serve_def Let_def)

theorem fault_injection_witness:
  "(0::real) \<le> rndError sampleEnv \<and> rndError sampleEnv < 1 \<and>
   snd (serve sampleRuntime (sampleConfig\<lparr>chanceOfServerError := 1\<rparr>) sampleEnv (DeleteUser ''u1'') sampleStore)
     = ((500, Message ''Server Error''), sampleStore) \<and>
   snd (serve sampleRuntime sampleConfig sampleEnv (DeleteUser ''u1'') sampleStore)
     = ((200, UserBody u1), sampleStore\<lparr>users := [u2, u3]\<rparr>)"
proof -
  have a: "0 \<le> rndError sampleEnv" and b: "rndError sampleEnv < 1"
    by (simp_all add: sampleEnv_def)
  have c: "chanceOfServerError (sampleConfig\<lparr>chanceOfServerError := 1\<rparr>) = 1" by simp
  have d: "chanceOfServerError sampleConfig = 0" by (simp add: sampleConfig_def)
  have e: "handle sampleRuntime sampleConfig sampleEnv (DeleteUser ''u1'') sampleStore
             = ((200, UserBody u1), sampleStore\<lparr>users := [u2, u3]\<rparr>)"
    by (simp add: handle_def deleteUser_def getEntity_def Let_def sample_defs)
  from fault_injection[OF a b, of "sampleConfig\<lparr>chanceOfServerError := 1\<rparr>" sampleRuntime] c
    fault_injection[OF a b, of sampleConfig sampleRuntime] d e a b
  show ?thesis by simp
qed

section \<open>Search over the two collections\<close>

text \<open>
  C10 (search over an undefined field), as stated: a non-empty search over any
  collection that holds an item with an undefined search field throws a \<open>TypeError\<close>.
  It does not when an earlier field of that item already contains the term: the loop
  returns before it reads the undefined one. Role \<open>r3\<close> has no description and the name
  \<open>operations\<close>; the search for \<open>oper\<close> answers 200 with \<open>r3\<close> in the page.
\<close>

theorem role_search_counterexample:
  "description r3 = None \<and> ''oper'' \<noteq> [] \<and>
   fullTextSearch sampleRuntime (roleField sampleRuntime) [r3] searchFields_roles (QStr ''oper'') = Inr [r3] \<and>
   getRoles sampleRuntime sampleConfig \<lparr> search = Some (QStr ''oper''), page = None \<rparr> \<lparr> users = [], roles = [r3] \<rparr> =
     ((200, RolesPage \<lparr> data = [r3], next = None, prev = None, pages = 1 \<rparr>), \<lparr> users = [], roles = [r3] \<rparr>)"
  by (simp add: getRoles_def getPagedData_def paginate_def fullTextSearch_def roleField_def
      searchFields_roles_def asciiLower_def lower_char_def Let_def ceiling_one_divide_numeral
      runtime_defs sample_defs r3_def)

text \<open>
  C10, amended. \<open>fullTextSearch\<close> calls \<open>toString()\<close> with no presence check on each
  declared field that its loop reaches, and the loop returns at the first field that
  contains the term. So, for a string term:
  \<^item> for any collection containing an item with an undefined declared search field
    whose earlier declared fields are all defined and do not contain the term, the
    search throws a \<open>TypeError\<close> instead of excluding that item;
  \<^item> an item with a declared field that contains the term, and whose earlier declared
    fields are all defined, makes the filter callback return \<open>true\<close> and is in every
    result the search returns over a collection that holds it;
  \<^item> for roles: \<open>GET /roles\<close> with a non-empty term answers 500 when a role has no
    description and a name that does not contain the term; a role whose name contains
    the term, with or without a description, makes the callback return \<open>true\<close> and is in
    every result the search returns.
\<close>

theorem undefined_field_search:
  "(x \<in> set xs \<and> flds = pre @ f # post \<and> fld x f = None \<and>
      (\<forall>g \<in> set pre. \<exists>v. fld x g = Some v \<and> \<not> includesStr (toLowerCase rt v) (toLowerCase rt t))
     \<longrightarrow> fullTextSearch rt fld xs flds (QStr t) = Inl TypeError) \<and>
   (flds = pre @ f # post \<and> (\<forall>g \<in> set pre. fld x g \<noteq> None) \<and>
      fld x f = Some v \<and> includesStr (toLowerCase rt v) (toLowerCase rt t)
     \<longrightarrow> matchesAny rt fld x flds (toLowerCase rt t) = Inr True \<and>
          (\<forall>ys. x \<in> set xs \<and> fullTextSearch rt fld xs flds (QStr t) = Inr ys \<longrightarrow> x \<in> set ys)) \<and>
   (r \<in> set (roles s) \<and> description r = None \<and>
      \<not> includesStr (toLowerCase rt (name r)) (toLowerCase rt t) \<and> t \<noteq> []
     \<longrightarrow> getRoles rt cfg \<lparr> search = Some (QStr t), page = p \<rparr> s = ((500, Uncaught TypeError), s)) \<and>
   (includesStr (toLowerCase rt (name r)) (toLowerCase rt t)
     \<longrightarrow> matchesAny rt (roleField rt) r searchFields_roles (toLowerCase rt t) = Inr True \<and>
          (\<forall>rs ys. r \<in> set rs \<and> fullTextSearch rt (roleField rt) rs searchFields_roles (QStr t) = Inr ys
                   \<longrightarrow> r \<in> set ys))"
proof (intro conjI impI)
  assume a: "x \<in> set xs \<and> flds = pre @ f # post \<and> fld x f = None \<and>
      (\<forall>g \<in> set pre. \<exists>v. fld x g = Some v \<and> \<not> includesStr (toLowerCase rt v) (toLowerCase rt t))"
  then have "matchesAny rt fld x flds (toLowerCase rt t) = Inl TypeError"
    using matchesAny_throws[of pre fld x rt "toLowerCase rt t" f post] by simp
  then show "fullTextSearch rt fld xs flds (QStr t) = Inl TypeError"
    using a filterItems_throws_iff[of rt fld xs flds "toLowerCase rt t"]
    by (auto simp: fullTextSearch_def)
next
  assume a: "flds = pre @ f # post \<and> (\<forall>g \<in> set pre. fld x g \<noteq> None) \<and>
      fld x f = Some v \<and> includesStr (toLowerCase rt v) (toLowerCase rt t)"
  then show m: "matchesAny rt fld x flds (toLowerCase rt t) = Inr True"
    using matchesAny_first_match[of pre fld x f v rt "toLowerCase rt t" post] by simp
  show "\<forall>ys. x \<in> set xs \<and> fullTextSearch rt fld xs flds (QStr t) = Inr ys \<longrightarrow> x \<in> set ys"
    using m by (auto simp: fullTextSearch_def dest: filterItems_kept)
next
  assume a: "r \<in> set (roles s) \<and> description r = None \<and>
      \<not> includesStr (toLowerCase rt (name r)) (toLowerCase rt t) \<and> t \<noteq> []"
  then show "getRoles rt cfg \<lparr> search = Some (QStr t), page = p \<rparr> s = ((500, Uncaught TypeError), s)"
    using getRoles_search_throws[of "\<lparr> search = Some (QStr t), page = p \<rparr>" t r s rt cfg] by simp
next
  assume a: "includesStr (toLowerCase rt (name r)) (toLowerCase rt t)"
  then show m: "matchesAny rt (roleField rt) r searchFields_roles (toLowerCase rt t) = Inr True"
    by (simp add: matchesAny_roles)
  show "\<forall>rs ys. r \<in> set rs \<and> fullTextSearch rt (roleField rt) rs searchFields_roles (QStr t) = Inr ys
                   \<longrightarrow> r \<in> set ys"
    using m by (auto simp: fullTextSearch_def dest: filterItems_kept)
qed

theorem undefined_field_search_witness:
  "getRoles sampleRuntime sampleConfig \<lparr> search = Some (QStr ''sup''), page = None \<rparr>
      \<lparr> users = [], roles = [r1, r3] \<rparr> = ((500, Uncaught TypeError), \<lparr> users = [], roles = [r1, r3] \<rparr>) \<and>
   fullTextSearch sampleRuntime (roleField sampleRuntime) [r1, r3] searchFields_roles (QStr ''sup'') = Inl TypeError \<and>
   matchesAny sampleRuntime (roleField sampleRuntime) r3 searchFields_roles (toLowerCase sampleRuntime ''OPER'') = Inr True"
proof -
  let ?s = "\<lparr> users = [], roles = [r1, r3] \<rparr>"
  have "asciiLower ''OPER'' = ''oper''" by code_simp
  then have low: "toLowerCase sampleRuntime ''OPER'' = ''oper''" by (simp add: sampleRuntime_def)
  have nm: "toLowerCase sampleRuntime (name r3) = ''operations''"
    by (simp add: sample_defs r3_def sampleRuntime_def asciiLower_def lower_char_def)
  have sup: "toLowerCase sampleRuntime ''sup'' = ''sup''"
    by (simp add: sampleRuntime_def asciiLower_def lower_char_def)
  note T = undefined_field_search[of r3 "[r1, r3]" searchFields_roles "[''name'']" "''description''" "[]"
      "roleField sampleRuntime" sampleRuntime "''sup''" "[]" r3 ?s sampleConfig None]
  have p1: "r3 \<in> set [r1, r3] \<and> searchFields_roles = [''name''] @ ''description'' # [] \<and>
      roleField sampleRuntime r3 ''description'' = None \<and>
      (\<forall>g \<in> set [''name'']. \<exists>v. roleField sampleRuntime r3 g = Some v \<and>
        \<not> includesStr (toLowerCase sampleRuntime v) (toLowerCase sampleRuntime ''sup''))"
    by (simp add: searchFields_roles_def roleField_def nm sup) (simp add: sample_defs r3_def)
  have p3: "r3 \<in> set (roles ?s) \<and> description r3 = None \<and>
      \<not> includesStr (toLowerCase sampleRuntime (name r3)) (toLowerCase sampleRuntime ''sup'') \<and> ''sup'' \<noteq> []"
    by (simp add: nm sup) (simp add: sample_defs r3_def)
  have 1: "fullTextSearch sampleRuntime (roleField sampleRuntime) [r1, r3] searchFields_roles (QStr ''sup'') = Inl TypeError"
    using T[THEN conjunct1, THEN mp, OF p1] .
  have 2: "getRoles sampleRuntime sampleConfig \<lparr> search = Some (QStr ''sup''), page = None \<rparr> ?s = ((500, Uncaught TypeError), ?s)"
    using T[THEN conjunct2, THEN conjunct2, THEN conjunct1, THEN mp, OF p3] .
  note U = undefined_field_search[of r3 "[]" "[]" "[]" "[]" "[]" "roleField sampleRuntime" sampleRuntime "''OPER''" "[]" r3 ?s sampleConfig None]
  have p4: "includesStr (toLowerCase sampleRuntime (name r3)) (toLowerCase sampleRuntime ''OPER'')"
    by (simp add: nm low)
  have 3: "matchesAny sampleRuntime (roleField sampleRuntime) r3 searchFields_roles (toLowerCase sampleRuntime ''OPER'') = Inr True"
    using U[THEN conjunct2, THEN conjunct2, THEN conjunct2, THEN mp, OF p4, THEN conjunct1] .
  from 1 2 3 show ?thesis by simp
qed



section \<open>Role routes and the invariants\<close>

lemma count_update:
  "i < length xs \<Longrightarrow>
   length (filter P (xs[i := y])) + (if P (xs ! i) then 1 else 0)
     = length (filter P xs) + (if P y then 1 else 0)"
proof (induction xs arbitrary: i)
  case Nil
  then show ?case by simp
next
  case (Cons x xs)
  show ?case
  proof (cases i)
    case 0
    then show ?thesis by simp
  next
    case (Suc k)
    with Cons.prems have "k < length xs" by simp
    from Cons.IH[OF this] Suc show ?thesis by simp
  qed
qed

lemma map_update_same:
  "f y = f (xs ! i) \<Longrightarrow> map f (xs[i := y]) = map f xs"
  by (simp add: map_update list_update_same_conv) (metis list_update_beyond list_update_id map_update not_le_imp_less nth_map length_map)

lemma rolesInv_rolesOk: "rolesInv rs \<Longrightarrow> rolesOk rs"
  by (auto simp: rolesInv_def rolesOk_def)

lemma rolesOk_update_same:
  assumes "rolesOk rs" "i < length rs" "eid y = eid (rs ! i)" "isDefaultRole y = isDefaultRole (rs ! i)"
  shows "rolesOk (rs[i := y])"
proof -
  have "map eid (rs[i := y]) = map eid rs" using assms(3) by (rule map_update_same)
  moreover have "length (filter isDefaultRole (rs[i := y])) = length (filter isDefaultRole rs)"
    using count_update[OF assms(2), of isDefaultRole y] assms(4) by simp
  then have "(filter isDefaultRole (rs[i := y]) = []) = (filter isDefaultRole rs = [])"
    by (metis length_0_conv)
  ultimately show ?thesis using assms(1) by (simp add: rolesOk_def)
qed

lemma rolesOk_sortWith: "rolesOk (sortWith cmp rs) = rolesOk rs"
proof -
  have m: "mset (sortWith cmp rs) = mset rs" by (rule mset_sortWith)
  have "mset (map eid (sortWith cmp rs)) = mset (map eid rs)" using m by simp
  then have d: "distinct (map eid (sortWith cmp rs)) = distinct (map eid rs)"
    by (rule mset_eq_imp_distinct_iff)
  have "set (filter isDefaultRole (sortWith cmp rs)) = set (filter isDefaultRole rs)"
    by (simp add: set_sortWith)
  then have "(filter isDefaultRole (sortWith cmp rs) = []) = (filter isDefaultRole rs = [])"
    by (metis set_empty)
  with d show ?thesis by (simp add: rolesOk_def)
qed

lemma getPagedData_store:
  "getPagedData rt n fld q xs flds = Inr (pd, ys) \<Longrightarrow> ys = xs \<or> ys = sortWith (sortBy rt) xs"
  using snd_paginate[of rt n q xs]
  by (auto simp: getPagedData_def split: sum.splits if_splits option.splits)

lemma getRoles_rolesOk: "rolesOk (roles s) \<Longrightarrow> rolesOk (roles (snd (getRoles rt cfg q s)))"
  by (auto simp: getRoles_def rolesOk_sortWith split: sum.splits dest!: getPagedData_store)

lemma getUsers_roles: "roles (snd (getUsers rt cfg q s)) = roles s"
  by (auto simp: getUsers_def split: sum.splits)

lemma getUser_store: "snd (getUser i s) = s"
  by (simp add: getUser_def split: option.splits)

lemma getRole_store: "snd (getRole i s) = s"
  by (simp add: getRole_def split: option.splits)

lemma patchUser_roles: "roles (snd (patchUser ev i b s)) = roles s"
  by (simp add: patchUser_def Let_def split: option.splits prod.splits)

lemma postUser_roles: "roles (snd (postUser ev b s)) = roles s"
  by (simp add: postUser_def Let_def split: option.splits)

lemma deleteUser_roles: "roles (snd (deleteUser i s)) = roles s"
  by (simp add: deleteUser_def Let_def split: option.splits)

lemma getEntity_Some:
  "getEntity ident xs = Some i \<Longrightarrow> i < length xs \<and> eid (xs ! i) = ident"
  using findIndex_Some[of "\<lambda>item. eid item = ident" xs i] by (simp add: getEntity_def)

lemma updateField_name:
  "eid (snd (updateField (\<lambda>r. Some (name r)) (\<lambda>v r. r\<lparr>name := v\<rparr>) r v)) = eid r \<and>
   isDefault (snd (updateField (\<lambda>r. Some (name r)) (\<lambda>v r. r\<lparr>name := v\<rparr>) r v)) = isDefault r"
  by (simp add: updateField_def split: option.splits)

lemma updateField_description:
  "eid (snd (updateField description (\<lambda>v r. r\<lparr>description := Some v\<rparr>) r v)) = eid r \<and>
   isDefault (snd (updateField description (\<lambda>v r. r\<lparr>description := Some v\<rparr>) r v)) = isDefault r"
  by (simp add: updateField_def split: option.splits)

lemma clearDefaultRole_Inr:
  assumes "clearDefaultRole rs = Inr rs'"
  shows "map eid rs' = map eid rs \<and> length rs' = length rs"
proof -
  from assms obtain j where j: "rs' = rs[j := (rs ! j)\<lparr>isDefault := JBool False\<rparr>]"
    by (auto simp: clearDefaultRole_def split: option.splits)
  have "map eid rs' = map eid rs" unfolding j by (rule map_update_same) simp
  then show ?thesis by (simp add: j)
qed

lemma rolesOk_default_exists:
  assumes "rolesOk rs"
  shows "\<exists>d. getDefaultRole rs = Some d \<and> d < length rs \<and> isDefaultRole (rs ! d)"
proof -
  from assms have "filter isDefaultRole rs \<noteq> []" by (simp add: rolesOk_def)
  then have "\<exists>x \<in> set rs. isDefaultRole x" by (simp add: filter_empty_conv)
  then obtain d where "findIndex isDefaultRole rs = Some d"
    using findIndex_None_iff[of isDefaultRole rs] by (cases "findIndex isDefaultRole rs") auto
  then show ?thesis using findIndex_Some[of isDefaultRole rs d] by (simp add: getDefaultRole_def)
qed

lemma rolesOk_with_default:
  assumes "distinct (map eid rs)" "i < length rs" "isDefaultRole (rs ! i)"
  shows "rolesOk rs"
proof -
  have "rs ! i \<in> set (filter isDefaultRole rs)" using assms(2,3) by simp
  then have "filter isDefaultRole rs \<noteq> []" by (metis empty_iff set_empty)
  then show ?thesis using assms(1) by (simp add: rolesOk_def)
qed

lemma patchRole_rolesOk:
  assumes inv: "rolesOk (roles s)"
  shows "rolesOk (roles (snd (patchRole ev ident b s))) \<and>
         map eid (roles (snd (patchRole ev ident b s))) = map eid (roles s) \<and>
         users (snd (patchRole ev ident b s)) = users s"
proof (cases "getEntity ident (roles s)")
  case None
  then show ?thesis using inv by (simp add: patchRole_def)
next
  case (Some i)
  then have i: "i < length (roles s)" using getEntity_Some by blast
  define role1 where "role1 = snd (updateField (\<lambda>r. Some (name r)) (\<lambda>v r. r\<lparr>name := v\<rparr>) (roles s ! i) (b_name b))"
  define role2 where "role2 = snd (updateField description (\<lambda>v r. r\<lparr>description := Some v\<rparr>) role1 (b_description b))"
  define rs1 where "rs1 = (roles s)[i := role2]"
  have r2: "eid role2 = eid (roles s ! i)" "isDefault role2 = isDefault (roles s ! i)"
    by (simp_all add: role2_def role1_def updateField_name updateField_description)
  have inv1: "rolesOk rs1" unfolding rs1_def using inv i r2(1) by (rule rolesOk_update_same) (simp add: r2(2))
  have ids1: "map eid rs1 = map eid (roles s)" unfolding rs1_def using r2(1) by (rule map_update_same)
  have len1: "length rs1 = length (roles s)" by (simp add: rs1_def)
  show ?thesis
  proof (cases "findIndex (\<lambda>r. Some (name r) = b_name b \<and> eid r \<noteq> eid (roles s ! i)) (roles s) \<noteq> None")
    case True
    then show ?thesis using Some inv by (simp add: patchRole_def)
  next
    case noclash: False
    consider (unset) "\<not> strictEq (b_isDefault b) (isDefault role2)" "b_isDefault b = Some (JBool False)"
      | (set) "\<not> strictEq (b_isDefault b) (isDefault role2)" "b_isDefault b = Some (JBool True)"
      | (keep) "\<not> (\<not> strictEq (b_isDefault b) (isDefault role2) \<and> b_isDefault b = Some (JBool False))"
               "\<not> (\<not> strictEq (b_isDefault b) (isDefault role2) \<and> b_isDefault b = Some (JBool True))"
      by blast
    then show ?thesis
    proof cases
      case unset
      then have "snd (patchRole ev ident b s) = s\<lparr>roles := rs1\<rparr>"
        using Some noclash
        by (simp add: patchRole_def Let_def case_prod_beta role1_def role2_def rs1_def)
      then show ?thesis using inv1 ids1 by simp
    next
      case set
      show ?thesis
      proof (cases "clearDefaultRole rs1")
        case (Inl e)
        then have "snd (patchRole ev ident b s) = s\<lparr>roles := rs1\<rparr>"
          using Some noclash set
          by (simp add: patchRole_def Let_def case_prod_beta role1_def role2_def rs1_def)
        then show ?thesis using inv1 ids1 by simp
      next
        case (Inr rs2)
        define role3 where "role3 = (rs2 ! i)\<lparr>isDefault := JBool True, updatedAt := now ev\<rparr>"
        have res: "snd (patchRole ev ident b s) = s\<lparr>roles := rs2[i := role3]\<rparr>"
          using Some noclash set Inr
          by (simp add: patchRole_def Let_def case_prod_beta role1_def role2_def rs1_def role3_def)
        from clearDefaultRole_Inr[OF Inr]
        have c: "map eid rs2 = map eid rs1" "length rs2 = length rs1" by simp_all
        have i2: "i < length rs2" using c(2) len1 i by simp
        have ids3: "map eid (rs2[i := role3]) = map eid rs2"
          by (rule map_update_same) (simp add: role3_def)
        have "distinct (map eid (rs2[i := role3]))"
          using ids3 c(1) ids1 inv by (simp add: rolesOk_def)
        moreover have "i < length (rs2[i := role3])" using i2 by simp
        moreover have "isDefaultRole ((rs2[i := role3]) ! i)" using i2 by (simp add: role3_def)
        ultimately have "rolesOk (rs2[i := role3])" by (rule rolesOk_with_default)
        then show ?thesis using res ids3 c(1) ids1 by simp
      qed
    next
      case keep
      define role3 where "role3 = (if fst (updateField description (\<lambda>v r. r\<lparr>description := Some v\<rparr>) role1 (b_description b))
                                      \<or> fst (updateField (\<lambda>r. Some (name r)) (\<lambda>v r. r\<lparr>name := v\<rparr>) (roles s ! i) (b_name b))
                                   then role2\<lparr>updatedAt := now ev\<rparr> else role2)"
      have res: "snd (patchRole ev ident b s) = s\<lparr>roles := (roles s)[i := role3]\<rparr>"
        using Some noclash keep
        by (auto simp add: patchRole_def Let_def case_prod_beta role1_def role2_def role3_def)
      have r3: "eid role3 = eid (roles s ! i)" "isDefault role3 = isDefault (roles s ! i)"
        using r2 by (simp_all add: role3_def)
      have "rolesOk ((roles s)[i := role3])" using inv i r3(1) by (rule rolesOk_update_same) (simp add: r3(2))
      moreover have "map eid ((roles s)[i := role3]) = map eid (roles s)"
        using r3(1) by (rule map_update_same)
      ultimately show ?thesis using res by simp
    qed
  qed
qed

lemma postRole_rolesOk:
  assumes inv: "rolesOk (roles s)" and fresh: "uuid ev \<notin> eid ` set (roles s)"
  shows "rolesOk (roles (snd (postRole ev b s))) \<and>
         set (map eid (roles s)) \<subseteq> set (map eid (roles (snd (postRole ev b s)))) \<and>
         users (snd (postRole ev b s)) = users s"
proof -
  define r where "r = \<lparr> eid = uuid ev, createdAt = now ev, updatedAt = now ev,
                   name = (case b_name b of Some v \<Rightarrow> v | None \<Rightarrow> []),
                   description = Some (case b_description b of Some v \<Rightarrow> v | None \<Rightarrow> []),
                   isDefault = (case b_isDefault b of Some v \<Rightarrow> v | None \<Rightarrow> JBool False) \<rparr>"
  have rid: "eid r = uuid ev" by (simp add: r_def)
  show ?thesis
  proof (cases "b_isDefault b = Some (JBool True)")
    case True
    then have rd: "isDefaultRole r" by (simp add: r_def)
    show ?thesis
    proof (cases "clearDefaultRole (roles s)")
      case (Inl e)
      then show ?thesis using inv True by (simp add: postRole_def Let_def)
    next
      case (Inr rs2)
      from clearDefaultRole_Inr[OF Inr]
      have c: "map eid rs2 = map eid (roles s)" by simp
      have "set (map eid rs2) = set (map eid (roles s))" using c by simp
      then have ids: "eid ` set rs2 = eid ` set (roles s)" by simp
      have res: "snd (postRole ev b s) = s \<or> snd (postRole ev b s) = s\<lparr>roles := rs2 @ [r]\<rparr>"
        using True Inr by (simp add: postRole_def Let_def r_def)
      have "rolesOk (rs2 @ [r])"
        using rid rd inv c ids fresh by (simp add: rolesOk_def)
      moreover have "set (map eid (roles s)) \<subseteq> set (map eid (rs2 @ [r]))"
        using ids by auto
      ultimately show ?thesis using res inv by auto
    qed
  next
    case False
    have res: "snd (postRole ev b s) = s \<or> snd (postRole ev b s) = s\<lparr>roles := roles s @ [r]\<rparr>"
      using False by (simp add: postRole_def Let_def r_def)
    have "rolesOk (roles s @ [r])"
      using rid inv fresh by (simp add: rolesOk_def)
    then show ?thesis using res inv by auto
  qed
qed

lemma filter_other_ids:
  assumes "distinct (map eid rs)" "i < length rs"
  shows "filter (\<lambda>item. eid item \<noteq> eid (rs ! i)) rs = take i rs @ drop (Suc i) rs"
proof -
  have split: "rs = take i rs @ rs ! i # drop (Suc i) rs"
    using assms(2) by (rule id_take_nth_drop)
  have "distinct (map eid (take i rs @ rs ! i # drop (Suc i) rs))"
    using assms(1) split by simp
  then have a: "\<forall>x \<in> set (take i rs). eid x \<noteq> eid (rs ! i)"
    and b: "\<forall>x \<in> set (drop (Suc i) rs). eid x \<noteq> eid (rs ! i)"
    by (auto simp: image_iff)
  have "filter (\<lambda>item. eid item \<noteq> eid (rs ! i)) (take i rs @ rs ! i # drop (Suc i) rs)
          = take i rs @ drop (Suc i) rs"
    using a b by simp
  then show ?thesis using split by simp
qed

lemma default_other_id:
  assumes "distinct (map eid rs)" "i < length rs" "\<not> isDefaultRole (rs ! i)" "x \<in> set rs" "isDefaultRole x"
  shows "eid x \<noteq> eid (rs ! i)"
proof
  assume e: "eid x = eid (rs ! i)"
  have "inj_on eid (set rs)" using assms(1) by (simp add: distinct_map)
  then have "x = rs ! i" using e assms(2,4) by (auto dest: inj_onD)
  then show False using assms(3,5) by simp
qed

lemma filter_default_after_delete:
  assumes "distinct (map eid rs)" "i < length rs" "\<not> isDefaultRole (rs ! i)"
  shows "filter isDefaultRole (filter (\<lambda>item. eid item \<noteq> eid (rs ! i)) rs) = filter isDefaultRole rs"
proof -
  have "filter isDefaultRole (filter (\<lambda>item. eid item \<noteq> eid (rs ! i)) rs)
          = filter (\<lambda>x. eid x \<noteq> eid (rs ! i) \<and> isDefaultRole x) rs"
    by simp
  also have "\<dots> = filter isDefaultRole rs"
    using default_other_id[OF assms] by (intro filter_cong) auto
  finally show ?thesis .
qed

lemma deleteRole_default:
  "getEntity ident (roles s) = Some i \<Longrightarrow> isDefaultRole (roles s ! i) \<Longrightarrow>
   deleteRole ident s = ((400, Message ''Cannot delete default role''), s)"
  by (simp add: deleteRole_def Let_def)

lemma deleteRole_other:
  assumes inv: "rolesOk (roles s)" and found: "getEntity ident (roles s) = Some i"
    and nd: "\<not> isDefaultRole (roles s ! i)"
  shows "\<exists>d s'. getDefaultRole (roles s) = Some d \<and> isDefaultRole (roles s ! d) \<and>
                deleteRole ident s = ((200, RoleBody (roles s ! i)), s') \<and>
                users s' = map (\<lambda>u. if roleId u = ident then u\<lparr>roleId := eid (roles s ! d)\<rparr> else u) (users s) \<and>
                roles s' = take i (roles s) @ drop (Suc i) (roles s) \<and>
                length (roles s') + 1 = length (roles s) \<and>
                filter isDefaultRole (roles s') = filter isDefaultRole (roles s) \<and>
                roles s ! d \<in> set (roles s')"
proof -
  from getEntity_Some[OF found] have i: "i < length (roles s)" "eid (roles s ! i) = ident" by simp_all
  from rolesOk_default_exists[OF inv]
  obtain d where d: "getDefaultRole (roles s) = Some d" "d < length (roles s)" "isDefaultRole (roles s ! d)"
    by blast
  have dist: "distinct (map eid (roles s))" using inv by (simp add: rolesOk_def)
  define s' where "s' = \<lparr> users = map (\<lambda>u. if roleId u = ident then u\<lparr>roleId := eid (roles s ! d)\<rparr> else u) (users s),
                          roles = filter (\<lambda>item. eid item \<noteq> ident) (roles s) \<rparr>"
  have res: "deleteRole ident s = ((200, RoleBody (roles s ! i)), s')"
    using found nd d(1) i(2) by (simp add: deleteRole_def Let_def s'_def)
  have rs: "roles s' = take i (roles s) @ drop (Suc i) (roles s)"
    using filter_other_ids[OF dist i(1)] i(2) by (simp add: s'_def)
  have len: "length (roles s') + 1 = length (roles s)"
    using i(1) by (simp add: rs)
  have fd: "filter isDefaultRole (roles s') = filter isDefaultRole (roles s)"
    using filter_default_after_delete[OF dist i(1) nd] i(2) by (simp add: s'_def)
  have "roles s ! d \<in> set (filter isDefaultRole (roles s))" using d by simp
  then have "roles s ! d \<in> set (roles s')" unfolding fd[symmetric] by simp
  with d res rs len fd show ?thesis
    by (intro exI[of _ d] exI[of _ s']) (simp add: s'_def)
qed

text \<open>
  C4 (role delete). In a store whose role identifiers are unique and that has exactly
  one default role, for an existing role: deleting the default role answers 400
  \<open>Cannot delete default role\<close> and leaves the store as it was; deleting any other role
  answers 200, every user whose \<open>roleId\<close> was the deleted identifier now has the default
  role's identifier and the other users are untouched, exactly that role is gone (one
  role fewer), and the default role is the same and still stored.
\<close>

theorem deleteRole_cascade:
  assumes inv: "rolesInv (roles s)" and found: "getEntity ident (roles s) = Some i"
  shows "(isDefaultRole (roles s ! i) \<longrightarrow>
            deleteRole ident s = ((400, Message ''Cannot delete default role''), s)) \<and>
         (\<not> isDefaultRole (roles s ! i) \<longrightarrow>
            (\<exists>d s'. getDefaultRole (roles s) = Some d \<and> isDefaultRole (roles s ! d) \<and>
                    deleteRole ident s = ((200, RoleBody (roles s ! i)), s') \<and>
                    users s' = map (\<lambda>u. if roleId u = ident then u\<lparr>roleId := eid (roles s ! d)\<rparr> else u) (users s) \<and>
                    roles s' = take i (roles s) @ drop (Suc i) (roles s) \<and>
                    length (roles s') + 1 = length (roles s) \<and>
                    filter isDefaultRole (roles s') = filter isDefaultRole (roles s) \<and>
                    roles s ! d \<in> set (roles s')))"
  using deleteRole_default[OF found] deleteRole_other[OF rolesInv_rolesOk[OF inv] found] by blast

theorem deleteRole_cascade_witness:
  "rolesInv (roles sampleStore) \<and>
   deleteRole ''r1'' sampleStore = ((400, Message ''Cannot delete default role''), sampleStore) \<and>
   deleteRole ''r2'' sampleStore =
     ((200, RoleBody r2),
      \<lparr> users = [u1\<lparr>roleId := ''r1''\<rparr>, u2\<lparr>roleId := ''r1''\<rparr>, u3], roles = [r1] \<rparr>)"
proof -
  have inv: "rolesInv (roles sampleStore)" by (simp add: rolesInv_def sample_defs)
  have f1: "getEntity ''r1'' (roles sampleStore) = Some 0" by (simp add: getEntity_def sample_defs)
  have f2: "getEntity ''r2'' (roles sampleStore) = Some 1" by (simp add: getEntity_def sample_defs)
  have d1: "isDefaultRole (roles sampleStore ! 0)" by (simp add: sample_defs)
  have d2: "\<not> isDefaultRole (roles sampleStore ! 1)" by (simp add: sample_defs)
  have gd: "getDefaultRole (roles sampleStore) = Some 0" by (simp add: getDefaultRole_def sample_defs)
  from deleteRole_cascade[OF inv f1] d1
  have a: "deleteRole ''r1'' sampleStore = ((400, Message ''Cannot delete default role''), sampleStore)"
    by simp
  from deleteRole_cascade[OF inv f2] d2 gd
  obtain s' where s': "deleteRole ''r2'' sampleStore = ((200, RoleBody (roles sampleStore ! 1)), s')"
    "users s' = map (\<lambda>u. if roleId u = ''r2'' then u\<lparr>roleId := eid (roles sampleStore ! 0)\<rparr> else u) (users sampleStore)"
    "roles s' = take 1 (roles sampleStore) @ drop (Suc 1) (roles sampleStore)"
    by auto
  have "s' = \<lparr> users = [u1\<lparr>roleId := ''r1''\<rparr>, u2\<lparr>roleId := ''r1''\<rparr>, u3], roles = [r1] \<rparr>"
    using s'(2,3) by (cases s') (simp add: sample_defs)
  with s'(1) a inv show ?thesis by (simp add: sample_defs)
qed

lemma deleteRole_rolesOk:
  assumes inv: "rolesOk (roles s)"
  shows "rolesOk (roles (snd (deleteRole ident s)))"
proof (cases "getEntity ident (roles s)")
  case None
  then show ?thesis using inv by (simp add: deleteRole_def)
next
  case (Some i)
  show ?thesis
  proof (cases "isDefaultRole (roles s ! i)")
    case True
    then show ?thesis using deleteRole_default[OF Some] inv by simp
  next
    case False
    from deleteRole_other[OF inv Some False]
    obtain s' where s': "deleteRole ident s = ((200, RoleBody (roles s ! i)), s')"
      "roles s' = take i (roles s) @ drop (Suc i) (roles s)"
      "filter isDefaultRole (roles s') = filter isDefaultRole (roles s)"
      by blast
    have "distinct (map eid (roles s))" using inv by (simp add: rolesOk_def)
    then have "distinct (map eid (take i (roles s) @ roles s ! i # drop (Suc i) (roles s)))"
      using id_take_nth_drop[of i "roles s"] getEntity_Some[OF Some] by simp
    then have "distinct (map eid (roles s'))" unfolding s'(2) by auto
    then show ?thesis using s'(1,3) inv by (simp add: rolesOk_def)
  qed
qed

lemma handle_rolesOk:
  assumes "rolesOk (roles s)" "uuid ev \<notin> eid ` set (roles s)"
  shows "rolesOk (roles (snd (handle rt cfg ev req s)))"
  using assms
  by (cases req)
    (simp_all add: handle_def getUsers_roles getUser_store patchUser_roles postUser_roles
      deleteUser_roles getRoles_rolesOk getRole_store patchRole_rolesOk postRole_rolesOk
      deleteRole_rolesOk)

lemma serve_cases:
  "snd (snd (serve rt cfg ev req s)) = s \<or> snd (snd (serve rt cfg ev req s)) = snd (handle rt cfg ev req s)"
  by (simp add: serve_def logWithNetworkEffects_def Let_def)

lemma reachable_rolesOk:
  assumes seed: "rolesOk (roles rawData)"
  shows "reachable rt cfg rawData s \<Longrightarrow> rolesOk (roles s)"
proof (induction rule: reachable.induct)
  case start
  show ?case using seed by (simp add: resetData_eq)
next
  case (request s ev req ms resp s')
  have "s' = snd (snd (serve rt cfg ev req s))" using request.hyps(3) by simp
  then show ?case
    using serve_cases[of rt cfg ev req s] request.IH handle_rolesOk[OF request.IH request.hyps(2)]
    by auto
next
  case (reset s)
  show ?case using seed by (simp add: resetData_eq)
qed

lemma getUsers_refsInv: "refsInv s \<Longrightarrow> refsInv (snd (getUsers rt cfg q s))"
  by (auto simp: getUsers_def refsInv_def set_sortWith split: sum.splits dest!: getPagedData_store)

lemma getRoles_refsInv: "refsInv s \<Longrightarrow> refsInv (snd (getRoles rt cfg q s))"
  by (auto simp: getRoles_def refsInv_def set_sortWith split: sum.splits dest!: getPagedData_store)

lemma updateField_first_roleId:
  "roleId (snd (updateField (\<lambda>u. Some (ufirst u)) (\<lambda>v u. u\<lparr>ufirst := v\<rparr>) u v)) = roleId u"
  by (simp add: updateField_def split: option.splits)

lemma updateField_last_roleId:
  "roleId (snd (updateField (\<lambda>u. Some (ulast u)) (\<lambda>v u. u\<lparr>ulast := v\<rparr>) u v)) = roleId u"
  by (simp add: updateField_def split: option.splits)

lemma refsInv_update:
  assumes "refsInv s" "roleId y \<in> eid ` set (roles s)"
  shows "refsInv (s\<lparr>users := (users s)[i := y]\<rparr>)"
proof -
  have "set ((users s)[i := y]) \<subseteq> insert y (set (users s))" by (rule set_update_subset_insert)
  then show ?thesis using assms by (auto simp: refsInv_def)
qed

lemma findIndex_role_found:
  "findIndex (\<lambda>r. Some (eid r) = v) rs = Some j \<Longrightarrow> \<exists>r. v = Some r \<and> r \<in> eid ` set rs"
  using findIndex_Some[of "\<lambda>r. Some (eid r) = v" rs j] by (cases v) auto

lemma patchUser_refsInv:
  assumes inv: "refsInv s"
  shows "refsInv (snd (patchUser ev ident b s))"
proof (cases "getEntity ident (users s)")
  case None
  then show ?thesis using inv by (simp add: patchUser_def)
next
  case (Some i)
  then have i: "i < length (users s)" using getEntity_Some by blast
  define user1 where "user1 = snd (updateField (\<lambda>u. Some (ufirst u)) (\<lambda>v u. u\<lparr>ufirst := v\<rparr>) (users s ! i) (b_first b))"
  define user2 where "user2 = snd (updateField (\<lambda>u. Some (ulast u)) (\<lambda>v u. u\<lparr>ulast := v\<rparr>) user1 (b_last b))"
  have "roleId user2 = roleId (users s ! i)"
    by (simp add: user2_def user1_def updateField_first_roleId updateField_last_roleId)
  then have r2: "roleId user2 \<in> eid ` set (roles s)"
    using inv i by (simp add: refsInv_def)
  have "\<exists>y. roleId y \<in> eid ` set (roles s) \<and> snd (patchUser ev ident b s) = s\<lparr>users := (users s)[i := y]\<rparr>"
  proof (cases "truthy (b_roleId b)")
    case True
    show ?thesis
    proof (cases "findIndex (\<lambda>r. Some (eid r) = b_roleId b) (roles s)")
      case None
      then have "snd (patchUser ev ident b s) = s\<lparr>users := (users s)[i := user2]\<rparr>"
        using Some True by (simp add: patchUser_def Let_def case_prod_beta user1_def user2_def)
      then show ?thesis using r2 by blast
    next
      case (Some j)
      from findIndex_role_found[OF Some] obtain r where r: "b_roleId b = Some r" "r \<in> eid ` set (roles s)"
        by blast
      have "snd (patchUser ev ident b s) = s\<lparr>users := (users s)[i := user2\<lparr>roleId := r, updatedAt := now ev\<rparr>]\<rparr>"
        using \<open>getEntity ident (users s) = Some i\<close> True Some r(1)
        by (simp add: patchUser_def Let_def case_prod_beta user1_def user2_def)
      moreover have "roleId (user2\<lparr>roleId := r, updatedAt := now ev\<rparr>) \<in> eid ` set (roles s)"
        using r(2) by simp
      ultimately show ?thesis by blast
    qed
  next
    case False
    define user4 where "user4 = (if fst (updateField (\<lambda>u. Some (ulast u)) (\<lambda>v u. u\<lparr>ulast := v\<rparr>) user1 (b_last b))
                                   \<or> fst (updateField (\<lambda>u. Some (ufirst u)) (\<lambda>v u. u\<lparr>ufirst := v\<rparr>) (users s ! i) (b_first b))
                                 then user2\<lparr>updatedAt := now ev\<rparr> else user2)"
    have "snd (patchUser ev ident b s) = s\<lparr>users := (users s)[i := user4]\<rparr>"
      using Some False by (auto simp add: patchUser_def Let_def case_prod_beta user1_def user2_def user4_def)
    moreover have "roleId user4 \<in> eid ` set (roles s)" using r2 by (simp add: user4_def)
    ultimately show ?thesis by blast
  qed
  then show ?thesis using refsInv_update[OF inv] by auto
qed

lemma postUser_refsInv:
  assumes inv: "refsInv s"
  shows "refsInv (snd (postUser ev b s))"
proof (cases "missingFields b \<noteq> []")
  case True
  then show ?thesis using inv by (simp add: postUser_def)
next
  case False
  show ?thesis
  proof (cases "findIndex (\<lambda>r. Some (eid r) = b_roleId b) (roles s)")
    case None
    then show ?thesis using inv False by (simp add: postUser_def)
  next
    case (Some j)
    from findIndex_role_found[OF Some] obtain r where r: "b_roleId b = Some r" "r \<in> eid ` set (roles s)"
      by blast
    then show ?thesis using inv False Some
      by (auto simp: postUser_def Let_def refsInv_def)
  qed
qed

lemma deleteUser_refsInv: "refsInv s \<Longrightarrow> refsInv (snd (deleteUser ident s))"
  by (auto simp: deleteUser_def Let_def refsInv_def split: option.splits)

lemma patchRole_refsInv:
  assumes "rolesOk (roles s)" "refsInv s"
  shows "refsInv (snd (patchRole ev ident b s))"
proof -
  from patchRole_rolesOk[OF assms(1), of ev ident b]
  have "map eid (roles (snd (patchRole ev ident b s))) = map eid (roles s)"
    and u: "users (snd (patchRole ev ident b s)) = users s" by simp_all
  then have "set (map eid (roles (snd (patchRole ev ident b s)))) = set (map eid (roles s))" by simp
  then have "eid ` set (roles (snd (patchRole ev ident b s))) = eid ` set (roles s)" by simp
  then show ?thesis using assms(2) u by (simp add: refsInv_def)
qed

lemma postRole_refsInv:
  assumes "rolesOk (roles s)" "uuid ev \<notin> eid ` set (roles s)" "refsInv s"
  shows "refsInv (snd (postRole ev b s))"
proof -
  from postRole_rolesOk[OF assms(1,2), of b]
  have "set (map eid (roles s)) \<subseteq> set (map eid (roles (snd (postRole ev b s))))"
    and u: "users (snd (postRole ev b s)) = users s" by simp_all
  then have "eid ` set (roles s) \<subseteq> eid ` set (roles (snd (postRole ev b s)))" by simp
  then show ?thesis using assms(3) u by (auto simp: refsInv_def)
qed

lemma deleteRole_refsInv:
  assumes inv: "rolesOk (roles s)" and refs: "refsInv s"
  shows "refsInv (snd (deleteRole ident s))"
proof (cases "getEntity ident (roles s)")
  case None
  then show ?thesis using refs by (simp add: deleteRole_def)
next
  case (Some i)
  show ?thesis
  proof (cases "isDefaultRole (roles s ! i)")
    case True
    then show ?thesis using deleteRole_default[OF Some] refs by simp
  next
    case False
    from deleteRole_other[OF inv Some False]
    obtain d s' where s': "deleteRole ident s = ((200, RoleBody (roles s ! i)), s')"
      "users s' = map (\<lambda>u. if roleId u = ident then u\<lparr>roleId := eid (roles s ! d)\<rparr> else u) (users s)"
      "roles s' = take i (roles s) @ drop (Suc i) (roles s)"
      "roles s ! d \<in> set (roles s')"
      by blast
    from getEntity_Some[OF Some] have i: "i < length (roles s)" "eid (roles s ! i) = ident" by simp_all
    have split: "roles s = take i (roles s) @ roles s ! i # drop (Suc i) (roles s)"
      using i(1) by (rule id_take_nth_drop)
    have keep: "r \<in> eid ` set (roles s')" if "r \<in> eid ` set (roles s)" "r \<noteq> ident" for r
    proof -
      from that(1) obtain x where x: "x \<in> set (roles s)" "r = eid x" by blast
      then have "x \<noteq> roles s ! i" using that(2) i(2) by auto
      then have "x \<in> set (take i (roles s)) \<or> x \<in> set (drop (Suc i) (roles s))"
        using x(1) split by (metis Un_iff set_ConsD set_append)
      then show ?thesis using x(2) s'(3) by auto
    qed
    have "roleId u' \<in> eid ` set (roles s')" if "u' \<in> set (users s')" for u'
    proof -
      from that obtain u where u: "u \<in> set (users s)"
        "u' = (if roleId u = ident then u\<lparr>roleId := eid (roles s ! d)\<rparr> else u)"
        unfolding s'(2) by auto
      show ?thesis
      proof (cases "roleId u = ident")
        case True
        then show ?thesis using u(2) s'(4) by simp
      next
        case False
        then show ?thesis using u refs keep by (simp add: refsInv_def)
      qed
    qed
    then show ?thesis using s'(1) by (simp add: refsInv_def)
  qed
qed

lemma handle_refsInv:
  assumes "rolesOk (roles s)" "uuid ev \<notin> eid ` set (roles s)" "refsInv s"
  shows "refsInv (snd (handle rt cfg ev req s))"
  using assms
  by (cases req)
    (simp_all add: handle_def getUsers_refsInv getUser_store patchUser_refsInv postUser_refsInv
      deleteUser_refsInv getRoles_refsInv getRole_store patchRole_refsInv postRole_refsInv
      deleteRole_refsInv)

lemma reachable_refsInv:
  assumes seed: "rolesOk (roles rawData)" "refsInv rawData"
  shows "reachable rt cfg rawData s \<Longrightarrow> refsInv s"
proof (induction rule: reachable.induct)
  case start
  show ?case using seed by (simp add: resetData_eq)
next
  case (request s ev req ms resp s')
  have "s' = snd (snd (serve rt cfg ev req s))" using request.hyps(3) by simp
  moreover have "rolesOk (roles s)" using seed(1) request.hyps(1) by (rule reachable_rolesOk)
  ultimately show ?case
    using serve_cases[of rt cfg ev req s] request.IH handle_refsInv[OF _ request.hyps(2) request.IH]
    by auto
next
  case (reset s)
  show ?case using seed by (simp add: resetData_eq)
qed

section \<open>The invariants in reachable stores\<close>

text \<open>
  C1 (exactly one default). The claim: after every sequence of requests exactly one role
  has \<open>isDefault\<close> true. \<open>POST /roles\<close> stores the \<open>isDefault\<close> of the body as it comes and
  clears the old default only when the value is \<open>=== true\<close>, while \<open>getDefaultRole\<close> finds
  the default by truthiness. On the sample store: \<open>POST /roles\<close> with \<open>isDefault: 1\<close> adds
  \<open>r9\<close> with the truthy 1 and leaves \<open>r1\<close> the default; \<open>GET /roles\<close> sorts the store
  newest first, \<open>r9\<close> in front; \<open>PATCH /roles/r9\<close> with \<open>isDefault: true\<close> then clears the
  first truthy role, which is \<open>r9\<close> itself, and sets \<open>r9\<close> to \<open>true\<close>. Two roles of this
  reachable store hold \<open>isDefault = true\<close>.
\<close>

theorem default_role_duplicated:
  "roles storeAfterPost = [r1, r2, r9] \<and>
   roles storeAfterGet = [r9, r2, r1] \<and>
   roles storeAfterPatch = [r9\<lparr>isDefault := JBool True, updatedAt := ''2024-06-02''\<rparr>, r2, r1] \<and>
   filter (\<lambda>r. isDefault r = JBool True) (roles storeAfterPatch)
     = [r9\<lparr>isDefault := JBool True, updatedAt := ''2024-06-02''\<rparr>, r1] \<and>
   reachable sampleRuntime sampleConfig sampleStore storeAfterPatch"
proof -
  have post: "storeAfterPost = sampleStore\<lparr>roles := [r1, r2, r9]\<rparr>"
    by (simp add: storeAfterPost_def serve_def logWithNetworkEffects_def handle_def postRole_def
        Let_def sample_defs r9_def laterEnv_def)
  have get: "storeAfterGet = sampleStore\<lparr>roles := [r9, r2, r1]\<rparr>"
    by (simp add: storeAfterGet_def post serve_def logWithNetworkEffects_def handle_def getRoles_def
        getPagedData_def paginate_def sortBy_def Let_def)
      (simp add: sampleRuntime_def sample_defs r9_def laterEnv_def)
  have patch: "storeAfterPatch =
      sampleStore\<lparr>roles := [r9\<lparr>isDefault := JBool True, updatedAt := ''2024-06-02''\<rparr>, r2, r1]\<rparr>"
    by (simp add: storeAfterPatch_def get serve_def logWithNetworkEffects_def handle_def patchRole_def
        getEntity_def updateField_def clearDefaultRole_def getDefaultRole_def Let_def sample_defs r9_def laterEnv_def)
  have r0: "reachable sampleRuntime sampleConfig sampleStore sampleStore"
    using reachable.start[of sampleRuntime sampleConfig sampleStore] by (simp add: resetData_eq)
  have f0: "uuid sampleEnv \<notin> eid ` set (roles sampleStore)" by (simp add: sample_defs r9_def laterEnv_def)
  have "serve sampleRuntime sampleConfig sampleEnv
       (PostRole \<lparr> b_name = Some ''sales'', b_description = None, b_isDefault = Some (JNum 1) \<rparr>)
       sampleStore = (fst (serve sampleRuntime sampleConfig sampleEnv
       (PostRole \<lparr> b_name = Some ''sales'', b_description = None, b_isDefault = Some (JNum 1) \<rparr>)
       sampleStore), fst (snd (serve sampleRuntime sampleConfig sampleEnv
       (PostRole \<lparr> b_name = Some ''sales'', b_description = None, b_isDefault = Some (JNum 1) \<rparr>)
       sampleStore)), storeAfterPost)"
    by (simp add: storeAfterPost_def)
  with r0 f0 have r1: "reachable sampleRuntime sampleConfig sampleStore storeAfterPost"
    by (rule reachable.request)
  have f1: "uuid laterEnv \<notin> eid ` set (roles storeAfterPost)" by (simp add: post sample_defs r9_def laterEnv_def)
  have "serve sampleRuntime sampleConfig laterEnv (GetRoles \<lparr> search = None, page = None \<rparr>) storeAfterPost
      = (fst (serve sampleRuntime sampleConfig laterEnv (GetRoles \<lparr> search = None, page = None \<rparr>) storeAfterPost),
         fst (snd (serve sampleRuntime sampleConfig laterEnv (GetRoles \<lparr> search = None, page = None \<rparr>) storeAfterPost)),
         storeAfterGet)"
    by (simp add: storeAfterGet_def)
  with r1 f1 have r2: "reachable sampleRuntime sampleConfig sampleStore storeAfterGet"
    by (rule reachable.request)
  have f2: "uuid laterEnv \<notin> eid ` set (roles storeAfterGet)" by (simp add: get sample_defs r9_def laterEnv_def)
  have "serve sampleRuntime sampleConfig laterEnv
       (PatchRole ''r9'' \<lparr> b_name = None, b_description = None, b_isDefault = Some (JBool True) \<rparr>) storeAfterGet
      = (fst (serve sampleRuntime sampleConfig laterEnv
       (PatchRole ''r9'' \<lparr> b_name = None, b_description = None, b_isDefault = Some (JBool True) \<rparr>) storeAfterGet),
         fst (snd (serve sampleRuntime sampleConfig laterEnv
       (PatchRole ''r9'' \<lparr> b_name = None, b_description = None, b_isDefault = Some (JBool True) \<rparr>) storeAfterGet)),
         storeAfterPatch)"
    by (simp add: storeAfterPatch_def)
  with r2 f2 have r3: "reachable sampleRuntime sampleConfig sampleStore storeAfterPatch"
    by (rule reachable.request)
  show ?thesis using r3 by (simp add: post get patch) (simp add: sample_defs r9_def laterEnv_def)
qed

text \<open>
  C2 (referential integrity). From a seed with unique role identifiers, exactly one
  default role and every user's \<open>roleId\<close> among its role identifiers, every user of
  every reachable store has a \<open>roleId\<close> that is the identifier of a stored role. (What
  the proof keeps of the roles is \<open>rolesOk\<close>: unique identifiers and at least one
  default.)
\<close>

theorem referential_integrity:
  assumes "rolesInv (roles rawData)" and "refsInv rawData" and "reachable rt cfg rawData s"
  shows "\<forall>u \<in> set (users s). roleId u \<in> eid ` set (roles s)"
  using reachable_refsInv[OF rolesInv_rolesOk[OF assms(1)] assms(2,3)] by (simp add: refsInv_def)

theorem referential_integrity_witness:
  "rolesInv (roles sampleStore) \<and> refsInv sampleStore \<and>
   snd (snd (serve sampleRuntime sampleConfig sampleEnv (DeleteRole ''r2'') (resetData sampleStore)))
     = \<lparr> users = [u1\<lparr>roleId := ''r1''\<rparr>, u2\<lparr>roleId := ''r1''\<rparr>, u3], roles = [r1] \<rparr> \<and>
   list_all (\<lambda>u. roleId u \<in> eid ` set (roles (snd (snd (serve sampleRuntime sampleConfig sampleEnv (DeleteRole ''r2'') (resetData sampleStore))))))
     (users (snd (snd (serve sampleRuntime sampleConfig sampleEnv (DeleteRole ''r2'') (resetData sampleStore)))))"
proof -
  let ?out = "serve sampleRuntime sampleConfig sampleEnv (DeleteRole ''r2'') (resetData sampleStore)"
  have seed: "rolesInv (roles sampleStore)" by (simp add: rolesInv_def sample_defs)
  have refs: "refsInv sampleStore" by (simp add: refsInv_def sample_defs)
  have fresh: "uuid sampleEnv \<notin> eid ` set (roles (resetData sampleStore))"
    by (simp add: resetData_def sample_defs)
  have "?out = (fst ?out, fst (snd ?out), snd (snd ?out))" by simp
  with reachable.start[of sampleRuntime sampleConfig sampleStore] fresh
  have r: "reachable sampleRuntime sampleConfig sampleStore (snd (snd ?out))" by (rule reachable.request)
  have ev: "snd (snd ?out) = \<lparr> users = [u1\<lparr>roleId := ''r1''\<rparr>, u2\<lparr>roleId := ''r1''\<rparr>, u3], roles = [r1] \<rparr>"
    by (simp add: serve_def logWithNetworkEffects_def handle_def deleteRole_def getEntity_def
        getDefaultRole_def resetData_def Let_def sample_defs)
  from referential_integrity[OF seed refs r] seed refs ev show ?thesis
    by (simp add: list_all_iff)
qed

end
